theory Spec2Isabelle
  imports Main "HOL-Library.Multiset" "HOL-Library.Sublist" "HOL-Library.Word"
begin

section \<open>Feed sanitizer: \<open>cleanXMLContent\<close>\<close>

text \<open>
  Both programs define
  \<^verbatim>\<open>func cleanXMLContent(content string) string {
      re := regexp.MustCompile(`[\x00-\x1F\x7F-\x9F]`)
      return re.ReplaceAllString(content, "")
  }\<close>
  A Go string is a sequence of bytes, modelled as \<open>string\<close> (a list of 8-bit
  characters). Go's \<open>regexp\<close> package does not match bytes: it walks the string one
  UTF-8 encoded code point at a time (\<open>utf8.DecodeRuneInString\<close>), every byte of an
  invalid sequence counting as the code point U+FFFD of width 1. The class of the
  pattern is a set of code points. \<open>ReplaceAllString\<close> copies the bytes between the
  matches unchanged.
\<close>

definition byte :: "char \<Rightarrow> nat" where
  "byte c = of_char c"

definition RuneError :: nat where
  "RuneError = 0xFFFD"

text \<open>Continuation byte: \<open>locb = 0x80\<close>, \<open>hicb = 0xBF\<close>.\<close>

definition cont :: "char \<Rightarrow> bool" where
  "cont c = (0x80 \<le> byte c \<and> byte c \<le> 0xBF)"

text \<open>
  The table \<open>first\<close> of package \<open>utf8\<close>, as the number of bytes of the sequence a first
  byte announces (0 for the bytes that cannot start a sequence), and \<open>acceptRanges\<close>,
  the range the second byte has to lie in.
\<close>

definition seqLen :: "char \<Rightarrow> nat" where
  "seqLen c = (let b = byte c in
     if b < 0x80 then 1
     else if b < 0xC2 then 0
     else if b < 0xE0 then 2
     else if b < 0xF0 then 3
     else if b < 0xF5 then 4
     else 0)"

definition acceptSecond :: "char \<Rightarrow> char \<Rightarrow> bool" where
  "acceptSecond c0 c1 = (let b = byte c0; lo = (if b = 0xE0 then 0xA0 else if b = 0xF0 then 0x90 else 0x80);
        hi = (if b = 0xED then 0x9F else if b = 0xF4 then 0x8F else 0xBF)
     in lo \<le> byte c1 \<and> byte c1 \<le> hi)"

text \<open>\<open>utf8.DecodeRuneInString\<close>: the code point at the head of the string and its width.\<close>

fun DecodeRuneInString :: "string \<Rightarrow> nat \<times> nat" where
  "DecodeRuneInString [] = (RuneError, 0)"
| "DecodeRuneInString (c0 # s) =
     (if seqLen c0 = 1 then (byte c0, 1)
      else if seqLen c0 = 0 then (RuneError, 1)
      else if length (c0 # s) < seqLen c0 then (RuneError, 1)
      else if \<not> acceptSecond c0 (s ! 0) then (RuneError, 1)
      else if seqLen c0 = 2 then ((byte c0 mod 32) * 64 + byte (s ! 0) mod 64, 2)
      else if \<not> cont (s ! 1) then (RuneError, 1)
      else if seqLen c0 = 3 then
        ((byte c0 mod 16) * 4096 + (byte (s ! 0) mod 64) * 64 + byte (s ! 1) mod 64, 3)
      else if \<not> cont (s ! 2) then (RuneError, 1)
      else ((byte c0 mod 8) * 262144 + (byte (s ! 0) mod 64) * 4096
            + (byte (s ! 1) mod 64) * 64 + byte (s ! 2) mod 64, 4))"

text \<open>The character class \<open>[\x00-\x1F\x7F-\x9F]\<close> of the pattern, on code points.\<close>

definition illegal :: "nat \<Rightarrow> bool" where
  "illegal r = (r \<le> 0x1F \<or> (0x7F \<le> r \<and> r \<le> 0x9F))"

lemma DecodeRuneInString_width:
  "1 \<le> snd (DecodeRuneInString (c # s)) \<and> snd (DecodeRuneInString (c # s)) \<le> length (c # s)"
proof -
  have "s \<noteq> [] \<Longrightarrow> Suc 0 \<le> length s" by (cases s) simp_all
  then show ?thesis
    by (auto simp: Let_def Suc_le_eq)
qed

lemma drop_width_shorter:
  "(drop (snd (DecodeRuneInString (c # s))) (c # s), c # s) \<in> measure length"
proof -
  have "1 \<le> snd (DecodeRuneInString (c # s))"
    using DecodeRuneInString_width [of c s] by blast
  then have "length (drop (snd (DecodeRuneInString (c # s))) (c # s)) < length (c # s)"
    unfolding length_drop by simp
  then show ?thesis by simp
qed

declare DecodeRuneInString.simps(2) [simp del]

function cleanXMLContent :: "string \<Rightarrow> string" where
  "cleanXMLContent [] = []"
| "cleanXMLContent (c # s) =
     (let r = fst (DecodeRuneInString (c # s)); width = snd (DecodeRuneInString (c # s))
      in if illegal r then cleanXMLContent (drop width (c # s))
         else take width (c # s) @ cleanXMLContent (drop width (c # s)))"
  by pat_completeness auto
termination
  by (relation "measure length") (simp_all only: wf_measure drop_width_shorter)

text \<open>
  \<open>utf8.ValidString\<close>: no byte of the string decodes as an invalid sequence. The code
  points of a string, as \<open>for _, r := range s\<close> yields them.
\<close>

function ValidString :: "string \<Rightarrow> bool" where
  "ValidString [] = True"
| "ValidString (c # s) =
     (let r = fst (DecodeRuneInString (c # s)); width = snd (DecodeRuneInString (c # s))
      in \<not> (r = RuneError \<and> width = 1) \<and> ValidString (drop width (c # s)))"
  by pat_completeness auto
termination
  by (relation "measure length") (simp_all only: wf_measure drop_width_shorter)

function runes :: "string \<Rightarrow> nat list" where
  "runes [] = []"
| "runes (c # s) =
     fst (DecodeRuneInString (c # s)) # runes (drop (snd (DecodeRuneInString (c # s))) (c # s))"
  by pat_completeness auto
termination
  by (relation "measure length") (simp_all only: wf_measure drop_width_shorter)


text \<open>An ASCII control byte: \<open>0x00\<close> to \<open>0x1F\<close>, or \<open>0x7F\<close>.\<close>

definition asciiControl :: "char \<Rightarrow> bool" where
  "asciiControl c = (byte c \<le> 0x1F \<or> byte c = 0x7F)"


subsection \<open>Decoding facts\<close>

lemma seqLen_cases: "seqLen c = 0 \<or> seqLen c = 1 \<or> seqLen c = 2 \<or> seqLen c = 3 \<or> seqLen c = 4"
  by (simp add: seqLen_def Let_def)

lemma seqLen_1: "seqLen c = 1 \<longleftrightarrow> byte c < 0x80"
  by (simp add: seqLen_def Let_def)

lemma seqLen_multi: "2 \<le> seqLen c \<Longrightarrow> 0xC2 \<le> byte c"
  by (simp add: seqLen_def Let_def split: if_splits)

lemma decode_valid:
  assumes "DecodeRuneInString (c # s) \<noteq> (RuneError, 1)"
  shows "snd (DecodeRuneInString (c # s)) = seqLen c \<and> 1 \<le> seqLen c \<and> seqLen c \<le> length (c # s)
     \<and> DecodeRuneInString (take (seqLen c) (c # s) @ t) = DecodeRuneInString (c # s)"
proof -
  consider "seqLen c = 0" | "seqLen c = 1" | "seqLen c = 2" | "seqLen c = 3" | "seqLen c = 4"
    using seqLen_cases [of c] by fastforce
  then show ?thesis
  proof cases
    case 1
    then show ?thesis using assms by (simp add: DecodeRuneInString.simps)
  next
    case 2
    then show ?thesis by (simp add: DecodeRuneInString.simps)
  next
    case 3
    with assms have "2 \<le> length (c # s)"
      by (simp add: DecodeRuneInString.simps Suc_le_eq split: if_splits)
    then obtain a s' where s: "s = a # s'" by (cases s) auto
    show ?thesis using 3 assms unfolding s
      by (simp add: DecodeRuneInString.simps split: if_splits)
  next
    case 4
    with assms have "3 \<le> length (c # s)"
      by (simp add: DecodeRuneInString.simps Suc_le_eq not_less split: if_splits)
    then obtain a b s' where s: "s = a # b # s'" by (cases s; cases "tl s") auto
    show ?thesis using 4 assms unfolding s
      by (simp add: DecodeRuneInString.simps split: if_splits)
  next
    case 5
    with assms have "4 \<le> length (c # s)"
      by (simp add: DecodeRuneInString.simps Suc_le_eq not_less split: if_splits)
    then obtain a b d s' where s: "s = a # b # d # s'" by (cases s; cases "tl s"; cases "tl (tl s)") auto
    show ?thesis using 5 assms unfolding s
      by (simp add: DecodeRuneInString.simps split: if_splits)
  qed
qed

lemma decode_multi_bytes:
  assumes "2 \<le> snd (DecodeRuneInString (c # s))"
  shows "\<forall>b \<in> set (take (snd (DecodeRuneInString (c # s))) (c # s)). 0x80 \<le> byte b"
proof -
  have v: "DecodeRuneInString (c # s) \<noteq> (RuneError, 1)" using assms by auto
  note d = decode_valid [OF v, of "[]"]
  have c: "0x80 \<le> byte c" using seqLen_multi [of c] assms d by simp
  consider "seqLen c = 2" | "seqLen c = 3" | "seqLen c = 4"
    using seqLen_cases [of c] assms d by auto
  then show ?thesis
  proof cases
    case 1
    then obtain a s' where s: "s = a # s'" using d by (cases s) auto
    show ?thesis using 1 v c unfolding s
      by (simp add: DecodeRuneInString.simps acceptSecond_def Let_def split: if_splits)
  next
    case 2
    then obtain a b s' where s: "s = a # b # s'" using d by (cases s; cases "tl s") auto
    show ?thesis using 2 v c unfolding s
      by (simp add: DecodeRuneInString.simps acceptSecond_def cont_def Let_def split: if_splits)
  next
    case 3
    then obtain a b e s' where s: "s = a # b # e # s'" using d by (cases s; cases "tl s"; cases "tl (tl s)") auto
    show ?thesis using 3 v c unfolding s
      by (simp add: DecodeRuneInString.simps acceptSecond_def cont_def Let_def split: if_splits)
  qed
qed


lemma clean_step:
  assumes "DecodeRuneInString (c # s) \<noteq> (RuneError, 1)"
  shows "cleanXMLContent (take (seqLen c) (c # s) @ t) =
     (if illegal (fst (DecodeRuneInString (c # s))) then cleanXMLContent t
      else take (seqLen c) (c # s) @ cleanXMLContent t)"
proof -
  note d = decode_valid [OF assms, of t]
  from d obtain n where n: "seqLen c = Suc n" by (cases "seqLen c") auto
  define P where "P = take (seqLen c) (c # s)"
  have p: "P @ t = c # (take n s @ t)" by (simp add: n P_def)
  have len: "length P = seqLen c" using d by (simp add: P_def)
  have dec: "DecodeRuneInString (c # (take n s @ t)) = DecodeRuneInString (c # s)"
    using d p by (simp add: P_def)
  have w: "snd (DecodeRuneInString (c # s)) = length P" using d len by simp
  have "cleanXMLContent (c # (take n s @ t)) =
     (if illegal (fst (DecodeRuneInString (c # s)))
      then cleanXMLContent (drop (length P) (c # (take n s @ t)))
      else take (length P) (c # (take n s @ t)) @ cleanXMLContent (drop (length P) (c # (take n s @ t))))"
    by (simp only: cleanXMLContent.simps Let_def dec w)
  then have "cleanXMLContent (P @ t) =
     (if illegal (fst (DecodeRuneInString (c # s)))
      then cleanXMLContent (drop (length P) (P @ t))
      else take (length P) (P @ t) @ cleanXMLContent (drop (length P) (P @ t)))"
    by (simp only: p)
  then show ?thesis unfolding P_def [symmetric] by simp
qed

lemma clean_idem_valid: "ValidString x \<Longrightarrow> cleanXMLContent (cleanXMLContent x) = cleanXMLContent x"
proof (induction x rule: cleanXMLContent.induct)
  case 1
  then show ?case by simp
next
  case (2 c s)
  let ?x = "c # s"
  let ?w = "snd (DecodeRuneInString ?x)"
  have v: "DecodeRuneInString ?x \<noteq> (RuneError, 1)" and vr: "ValidString (drop ?w ?x)"
    using "2.prems" by (auto simp only: ValidString.simps Let_def fst_conv snd_conv)
  note d = decode_valid [OF v, of "[]"]
  have w: "?w = seqLen c" using d by simp
  have ih: "cleanXMLContent (cleanXMLContent (drop ?w ?x)) = cleanXMLContent (drop ?w ?x)"
    using 2 vr by (cases "illegal (fst (DecodeRuneInString ?x))") simp_all
  show ?case
  proof (cases "illegal (fst (DecodeRuneInString ?x))")
    case True
    then show ?thesis using ih by (simp only: cleanXMLContent.simps Let_def if_True)
  next
    case False
    then have "cleanXMLContent ?x = take (seqLen c) ?x @ cleanXMLContent (drop ?w ?x)"
      by (simp only: cleanXMLContent.simps Let_def if_False w)
    then show ?thesis using ih False by (simp only: clean_step [OF v] if_False)
  qed
qed


lemma runes_step:
  assumes "DecodeRuneInString (c # s) \<noteq> (RuneError, 1)"
  shows "runes (take (seqLen c) (c # s) @ t) = fst (DecodeRuneInString (c # s)) # runes t"
proof -
  note d = decode_valid [OF assms, of t]
  from d obtain n where n: "seqLen c = Suc n" by (cases "seqLen c") auto
  define P where "P = take (seqLen c) (c # s)"
  have p: "P @ t = c # (take n s @ t)" by (simp add: n P_def)
  have len: "length P = seqLen c" using d by (simp add: P_def)
  have dec: "DecodeRuneInString (c # (take n s @ t)) = DecodeRuneInString (c # s)"
    using d p by (simp add: P_def)
  have w: "snd (DecodeRuneInString (c # s)) = length P" using d len by simp
  have "runes (c # (take n s @ t)) =
     fst (DecodeRuneInString (c # s)) # runes (drop (length P) (c # (take n s @ t)))"
    by (simp only: runes.simps dec w)
  then have "runes (P @ t) = fst (DecodeRuneInString (c # s)) # runes (drop (length P) (P @ t))"
    by (simp only: p)
  then show ?thesis unfolding P_def [symmetric] by simp
qed

lemma runes_clean_valid:
  "ValidString x \<Longrightarrow> runes (cleanXMLContent x) = filter (\<lambda>r. \<not> illegal r) (runes x)"
proof (induction x rule: cleanXMLContent.induct)
  case 1
  then show ?case by simp
next
  case (2 c s)
  let ?x = "c # s"
  let ?w = "snd (DecodeRuneInString ?x)"
  have v: "DecodeRuneInString ?x \<noteq> (RuneError, 1)" and vr: "ValidString (drop ?w ?x)"
    using "2.prems" by (auto simp only: ValidString.simps Let_def fst_conv snd_conv)
  note d = decode_valid [OF v, of "[]"]
  have w: "?w = seqLen c" using d by simp
  have ih: "runes (cleanXMLContent (drop ?w ?x)) = filter (\<lambda>r. \<not> illegal r) (runes (drop ?w ?x))"
    using 2 vr by (cases "illegal (fst (DecodeRuneInString ?x))") simp_all
  have rx: "runes ?x = fst (DecodeRuneInString ?x) # runes (drop ?w ?x)"
    by (simp only: runes.simps)
  show ?case
  proof (cases "illegal (fst (DecodeRuneInString ?x))")
    case True
    then have "cleanXMLContent ?x = cleanXMLContent (drop ?w ?x)"
      by (simp only: cleanXMLContent.simps Let_def if_True)
    then show ?thesis using ih True by (simp only: rx filter.simps if_True not_True_eq_False if_False)
  next
    case False
    then have "cleanXMLContent ?x = take (seqLen c) ?x @ cleanXMLContent (drop ?w ?x)"
      by (simp only: cleanXMLContent.simps Let_def if_False w)
    then show ?thesis using ih False by (simp only: runes_step [OF v] rx filter.simps if_True not_False_eq_True)
  qed
qed

lemma clean_no_asciiControl: "\<forall>b \<in> set (cleanXMLContent x). \<not> asciiControl b"
proof (induction x rule: cleanXMLContent.induct)
  case 1
  then show ?case by simp
next
  case (2 c s)
  let ?x = "c # s"
  let ?w = "snd (DecodeRuneInString ?x)"
  have ih: "\<forall>b \<in> set (cleanXMLContent (drop ?w ?x)). \<not> asciiControl b"
    using 2 by (cases "illegal (fst (DecodeRuneInString ?x))") simp_all
  show ?case
  proof (cases "illegal (fst (DecodeRuneInString ?x))")
    case True
    then show ?thesis using ih by (simp only: cleanXMLContent.simps Let_def if_True)
  next
    case False
    have kept: "\<forall>b \<in> set (take ?w ?x). \<not> asciiControl b"
    proof (cases "2 \<le> ?w")
      case True
      then show ?thesis using decode_multi_bytes [of c s] by (auto simp: asciiControl_def)
    next
      case w1: False
      then have w: "?w = 1" using DecodeRuneInString_width [of c s] by simp
      have "\<not> asciiControl c"
      proof (cases "seqLen c = 1")
        case True
        then have "fst (DecodeRuneInString ?x) = byte c" by (simp add: DecodeRuneInString.simps)
        then show ?thesis using False by (auto simp: illegal_def asciiControl_def)
      next
        case False
        then have "0x80 \<le> byte c" using seqLen_1 [of c] by simp
        then show ?thesis by (simp add: asciiControl_def)
      qed
      then show ?thesis by (simp add: w)
    qed
    have "cleanXMLContent ?x = take ?w ?x @ cleanXMLContent (drop ?w ?x)"
      using False by (simp only: cleanXMLContent.simps Let_def if_False)
    then show ?thesis using kept ih by (simp only: set_append) blast
  qed
qed


lemma clean_subseq: "subseq (cleanXMLContent x) x"
proof (induction x rule: cleanXMLContent.induct)
  case 1
  then show ?case by simp
next
  case (2 c s)
  let ?w = "snd (DecodeRuneInString (c # s))"
  let ?x = "c # s"
  have ih: "subseq (cleanXMLContent (drop ?w ?x)) (drop ?w ?x)"
    using 2 by (cases "illegal (fst (DecodeRuneInString ?x))") (simp_all)
  have a: "subseq (take ?w ?x @ cleanXMLContent (drop ?w ?x)) (take ?w ?x @ drop ?w ?x)"
    using ih by (simp only: subseq_append_iff) blast
  have b: "subseq (cleanXMLContent (drop ?w ?x)) (take ?w ?x @ drop ?w ?x)"
    using ih by (rule subseq_order.order_trans) (rule list_emb_append2, rule subseq_order.order_refl)
  show ?case
  proof (cases "illegal (fst (DecodeRuneInString ?x))")
    case True
    then show ?thesis using b by (simp only: cleanXMLContent.simps Let_def append_take_drop_id if_True)
  next
    case False
    then show ?thesis using a by (simp only: cleanXMLContent.simps Let_def append_take_drop_id if_False)
  qed
qed

subsection \<open>The input as a sequence of decoded chunks\<close>

text \<open>
  The regular expression engine walks the input with \<open>DecodeRuneInString\<close>: at each
  position it reads one code point and its width. \<open>chunks\<close> lists, for an input, the
  code point read at each position together with the bytes it was read from: a
  well-formed UTF-8 sequence, or a single byte that decodes as U+FFFD.
\<close>

function chunks :: "string \<Rightarrow> (nat \<times> string) list" where
  "chunks [] = []"
| "chunks (c # s) =
     (fst (DecodeRuneInString (c # s)), take (snd (DecodeRuneInString (c # s))) (c # s))
       # chunks (drop (snd (DecodeRuneInString (c # s))) (c # s))"
  by pat_completeness auto
termination
  by (relation "measure length") (simp_all only: wf_measure drop_width_shorter)

lemma chunks_concat: "concat (map snd (chunks x)) = x"
proof (induction x rule: chunks.induct)
  case 1
  then show ?case by simp
next
  case (2 c s)
  then show ?case by (simp only: chunks.simps list.map snd_conv concat.simps append_take_drop_id)
qed

lemma chunks_runes: "map fst (chunks x) = runes x"
proof (induction x rule: chunks.induct)
  case 1
  then show ?case by simp
next
  case (2 c s)
  then show ?case by (simp only: chunks.simps list.map fst_conv runes.simps)
qed

lemma clean_chunks:
  "cleanXMLContent x = concat (map snd (filter (\<lambda>(r, bs). \<not> illegal r) (chunks x)))"
proof (induction x rule: chunks.induct)
  case 1
  then show ?case by simp
next
  case (2 c s)
  show ?case
  proof (cases "illegal (fst (DecodeRuneInString (c # s)))")
    case True
    then show ?thesis using 2
      by (simp only: chunks.simps cleanXMLContent.simps Let_def if_True filter.simps case_prod_conv
          not_True_eq_False if_False)
  next
    case False
    then show ?thesis using 2
      by (simp only: chunks.simps cleanXMLContent.simps Let_def if_False filter.simps case_prod_conv
          not_False_eq_True if_True list.map snd_conv concat.simps)
  qed
qed


definition removedChunk :: "string \<Rightarrow> bool" where
  "removedChunk bs =
     (case bs of
        [b] \<Rightarrow> asciiControl b
      | [b0, b1] \<Rightarrow> b0 = CHR 0xC2 \<and> 0x80 \<le> byte b1 \<and> byte b1 \<le> 0x9F
      | _ \<Rightarrow> False)"

lemma byte_C2: "byte c = 0xC2 \<longleftrightarrow> c = CHR 0xC2"
proof
  assume "byte c = 0xC2"
  then have "of_char c = (of_char (CHR 0xC2) :: nat)" by (simp add: byte_def)
  then show "c = CHR 0xC2" by (simp only: of_char_eq_iff)
next
  assume "c = CHR 0xC2"
  then show "byte c = 0xC2" by (simp add: byte_def)
qed

lemma mod_shift:
  fixes k :: nat
  shows "k < m \<Longrightarrow> (q * m + k) mod m = k"
  by simp

lemma illegal_two_bytes:
  fixes bc ba :: nat
  assumes "0xC2 \<le> bc" "bc < 0xE0" "0x80 \<le> ba" "ba \<le> 0xBF"
  shows "illegal ((bc mod 32) * 64 + ba mod 64) \<longleftrightarrow> bc = 0xC2 \<and> ba \<le> 0x9F"
proof -
  define k where "k = bc - 192"
  have k: "bc = 6 * 32 + k" "k < 32" "2 \<le> k" using assms by (simp_all add: k_def)
  define j where "j = ba - 128"
  have j: "ba = 2 * 64 + j" "j < 64" using assms by (simp_all add: j_def)
  have m: "bc mod 32 = k" "ba mod 64 = j"
    unfolding k(1) j(1) using k(2) j(2) by (simp_all only: mod_shift)
  show ?thesis unfolding m illegal_def using k j by auto
qed

lemma illegal_three_bytes:
  fixes bc ba bb :: nat
  assumes "0xE0 \<le> bc" "bc < 0xF0" "bc = 0xE0 \<longrightarrow> 0xA0 \<le> ba" "0x80 \<le> ba" "ba \<le> 0xBF"
  shows "\<not> illegal ((bc mod 16) * 4096 + (ba mod 64) * 64 + bb mod 64)"
proof -
  define k where "k = bc - 224"
  have k: "bc = 14 * 16 + k" "k < 16" using assms by (simp_all add: k_def)
  define j where "j = ba - 128"
  have j: "ba = 2 * 64 + j" "j < 64" using assms by (simp_all add: j_def)
  have m: "bc mod 16 = k" "ba mod 64 = j"
    unfolding k(1) j(1) using k(2) j(2) by (simp_all only: mod_shift)
  have "k = 0 \<longrightarrow> 32 \<le> j" using assms(3) k j by auto
  then show ?thesis unfolding m illegal_def by (cases "k = 0") auto
qed

lemma illegal_four_bytes:
  fixes bc ba bb be :: nat
  assumes "0xF0 \<le> bc" "bc < 0xF5" "bc = 0xF0 \<longrightarrow> 0x90 \<le> ba" "0x80 \<le> ba" "ba \<le> 0xBF"
  shows "\<not> illegal ((bc mod 8) * 262144 + (ba mod 64) * 4096 + (bb mod 64) * 64 + be mod 64)"
proof -
  define k where "k = bc - 240"
  have k: "bc = 30 * 8 + k" "k < 8" using assms by (simp_all add: k_def)
  define j where "j = ba - 128"
  have j: "ba = 2 * 64 + j" "j < 64" using assms by (simp_all add: j_def)
  have m: "bc mod 8 = k" "ba mod 64 = j"
    unfolding k(1) j(1) using k(2) j(2) by (simp_all only: mod_shift)
  have "k = 0 \<longrightarrow> 16 \<le> j" using assms(3) k j by auto
  then show ?thesis unfolding m illegal_def by (cases "k = 0") auto
qed


lemma decode_illegal:
  "illegal (fst (DecodeRuneInString (c # s)))
     \<longleftrightarrow> removedChunk (take (snd (DecodeRuneInString (c # s))) (c # s))"
proof (cases "DecodeRuneInString (c # s) = (RuneError, 1)")
  case True
  have ns: "seqLen c \<noteq> 1"
  proof
    assume one: "seqLen c = 1"
    then have "DecodeRuneInString (c # s) = (byte c, 1)" by (simp add: DecodeRuneInString.simps)
    then have "byte c = RuneError" using True by simp
    moreover have "byte c < 0x80" using one seqLen_1 by blast
    ultimately show False by (simp add: RuneError_def)
  qed
  then have "0x80 \<le> byte c" using seqLen_1 [of c] by simp
  then have "\<not> asciiControl c" by (simp add: asciiControl_def)
  then show ?thesis using True by (simp add: illegal_def RuneError_def removedChunk_def)
next
  case False
  note d = decode_valid [OF False, of "[]"]
  consider "seqLen c = 1" | "seqLen c = 2" | "seqLen c = 3" | "seqLen c = 4"
    using seqLen_cases [of c] d by fastforce
  then show ?thesis
  proof cases
    case 1
    then have r: "DecodeRuneInString (c # s) = (byte c, 1)" by (simp add: DecodeRuneInString.simps)
    have "byte c < 0x80" using 1 seqLen_1 by blast
    then have "illegal (byte c) \<longleftrightarrow> asciiControl c"
      by (auto simp: illegal_def asciiControl_def)
    then show ?thesis using r by (simp add: removedChunk_def)
  next
    case 2
    then obtain a s' where s: "s = a # s'" using d by (cases s) auto
    have bc: "0xC2 \<le> byte c" "byte c < 0xE0"
      using 2 by (simp_all add: seqLen_def Let_def split: if_splits)
    have acc: "0x80 \<le> byte a" "byte a \<le> 0xBF"
      using False 2 bc unfolding s
      by (simp_all add: DecodeRuneInString.simps acceptSecond_def Let_def split: if_splits)
    have r: "DecodeRuneInString (c # s) = ((byte c mod 32) * 64 + byte a mod 64, 2)"
      using False 2 unfolding s
      by (simp add: DecodeRuneInString.simps split: if_splits)
    show ?thesis using r acc illegal_two_bytes [OF bc acc] unfolding s
      by (simp add: removedChunk_def byte_C2 [symmetric])
  next
    case 3
    then obtain a b s' where s: "s = a # b # s'" using d by (cases s; cases "tl s") auto
    have bc: "0xE0 \<le> byte c" "byte c < 0xF0"
      using 3 by (simp_all add: seqLen_def Let_def split: if_splits)
    have acc: "byte c = 0xE0 \<longrightarrow> 0xA0 \<le> byte a" "0x80 \<le> byte a" "byte a \<le> 0xBF"
      using False 3 bc unfolding s
      by (auto simp: DecodeRuneInString.simps acceptSecond_def Let_def split: if_splits)
    have r: "DecodeRuneInString (c # s)
        = ((byte c mod 16) * 4096 + (byte a mod 64) * 64 + byte b mod 64, 3)"
      using False 3 unfolding s
      by (simp add: DecodeRuneInString.simps split: if_splits)
    show ?thesis using r illegal_three_bytes [OF bc acc, of "byte b"] unfolding s
      by (simp add: removedChunk_def)
  next
    case 4
    then obtain a b e s' where s: "s = a # b # e # s'"
      using d by (cases s; cases "tl s"; cases "tl (tl s)") auto
    have bc: "0xF0 \<le> byte c" "byte c < 0xF5"
      using 4 by (simp_all add: seqLen_def Let_def split: if_splits)
    have acc: "byte c = 0xF0 \<longrightarrow> 0x90 \<le> byte a" "0x80 \<le> byte a" "byte a \<le> 0xBF"
      using False 4 bc unfolding s
      by (auto simp: DecodeRuneInString.simps acceptSecond_def Let_def split: if_splits)
    have r: "DecodeRuneInString (c # s)
        = ((byte c mod 8) * 262144 + (byte a mod 64) * 4096 + (byte b mod 64) * 64 + byte e mod 64, 4)"
      using False 4 unfolding s
      by (simp add: DecodeRuneInString.simps split: if_splits)
    show ?thesis using r illegal_four_bytes [OF bc acc, of "byte b" "byte e"] unfolding s
      by (simp add: removedChunk_def)
  qed
qed

lemma chunks_removed:
  "(r, bs) \<in> set (chunks x) \<Longrightarrow> illegal r \<longleftrightarrow> removedChunk bs"
proof (induction x rule: chunks.induct)
  case 1
  then show ?case by simp
next
  case (2 c s)
  from "2.prems" consider
    "r = fst (DecodeRuneInString (c # s))" "bs = take (snd (DecodeRuneInString (c # s))) (c # s)"
    | "(r, bs) \<in> set (chunks (drop (snd (DecodeRuneInString (c # s))) (c # s)))"
    by (auto simp only: chunks.simps set_simps insert_iff prod.inject)
  then show ?case
  proof cases
    case 1
    then show ?thesis using decode_illegal [of c s] by simp
  next
    case 2
    then show ?thesis using "2.IH" by blast
  qed
qed

subsection \<open>What the sanitizer removes\<close>

text \<open>
  Claim C6, as amended. \<open>cleanXMLContent\<close> is total. The input is the concatenation of
  its chunks, each a UTF-8 sequence with its code point or a single byte that decodes
  as U+FFFD; the output is the concatenation, in order, of the chunks whose code point
  is outside U+0000 to U+001F and U+007F to U+009F. The chunks removed are exactly
  the single bytes \<open>0x00\<close> to \<open>0x1F\<close> and \<open>0x7F\<close>, and the two-byte sequences \<open>C2 80\<close>
  to \<open>C2 9F\<close>; every other byte is kept, also in input that is not well-formed UTF-8.
  So the output is a subsequence of the input and holds no ASCII control byte. On
  well-formed UTF-8 the code points of the output are the code points of the input
  outside the two ranges, and sanitizing twice is sanitizing once.
\<close>

theorem cleanXMLContent_removes_control_code_points:
  "concat (map snd (chunks x)) = x
   \<and> map fst (chunks x) = runes x
   \<and> cleanXMLContent x = concat (map snd (filter (\<lambda>(r, bs). \<not> illegal r) (chunks x)))
   \<and> cleanXMLContent x = concat (filter (\<lambda>bs. \<not> removedChunk bs) (map snd (chunks x)))
   \<and> (\<forall>(r, bs) \<in> set (chunks x). illegal r \<longleftrightarrow> removedChunk bs)
   \<and> subseq (cleanXMLContent x) x
   \<and> (\<forall>b \<in> set (cleanXMLContent x). \<not> asciiControl b)
   \<and> (ValidString x \<longrightarrow>
        runes (cleanXMLContent x) = filter (\<lambda>r. \<not> illegal r) (runes x)
        \<and> cleanXMLContent (cleanXMLContent x) = cleanXMLContent x)"
proof -
  have r: "\<forall>(r, bs) \<in> set (chunks x). illegal r \<longleftrightarrow> removedChunk bs"
    using chunks_removed [of _ _ x] by blast
  have "filter (\<lambda>bs. \<not> removedChunk bs) (map snd (chunks x))
      = map snd (filter (\<lambda>(r, bs). \<not> illegal r) (chunks x))"
    unfolding filter_map using r by (intro arg_cong [where f = "map snd"] filter_cong) auto
  then have b: "cleanXMLContent x = concat (filter (\<lambda>bs. \<not> removedChunk bs) (map snd (chunks x)))"
    using clean_chunks [of x] by simp
  show ?thesis
    using chunks_concat [of x] chunks_runes [of x] clean_chunks [of x] b r
      clean_subseq [of x] clean_no_asciiControl [of x] runes_clean_valid [of x]
      clean_idem_valid [of x] by blast
qed

text \<open>
  A well-formed input: U+0085 (bytes \<open>C2 85\<close>), \<open>a\<close>, U+0007, \<open>b\<close>, U+4E00
  (bytes \<open>E4 B8 80\<close>). The two control code points go; the byte \<open>0x80\<close> that ends
  the encoding of U+4E00 stays. And an input in Latin-1, not well-formed UTF-8:
  \<open>caf\<close>, the byte \<open>E9\<close> and a line feed. The byte \<open>E9\<close> is a chunk of its own and
  stays; the line feed goes.
\<close>


definition sanitize_sample :: string where
  "sanitize_sample = [CHR 0xC2, CHR 0x85, CHR ''a'', CHR 0x07, CHR ''b'', CHR 0xE4, CHR 0xB8, CHR 0x80]"

definition latin1_sample :: string where
  "latin1_sample = [CHR ''c'', CHR ''a'', CHR ''f'', CHR 0xE9, CHR 0x0A]"


lemmas utf8_eval = DecodeRuneInString.simps seqLen_def byte_def acceptSecond_def cont_def
  illegal_def RuneError_def Let_def asciiControl_def

theorem cleanXMLContent_removes_control_code_points_witness:
  "ValidString sanitize_sample
   \<and> chunks sanitize_sample
       = [(0x85, [CHR 0xC2, CHR 0x85]), (0x61, ''a''), (0x07, [CHR 0x07]), (0x62, ''b''),
          (0x4E00, [CHR 0xE4, CHR 0xB8, CHR 0x80])]
   \<and> cleanXMLContent sanitize_sample = [CHR ''a'', CHR ''b'', CHR 0xE4, CHR 0xB8, CHR 0x80]
   \<and> runes (cleanXMLContent sanitize_sample) = [0x61, 0x62, 0x4E00]
   \<and> cleanXMLContent (cleanXMLContent sanitize_sample) = cleanXMLContent sanitize_sample
   \<and> subseq (cleanXMLContent sanitize_sample) sanitize_sample
   \<and> \<not> ValidString latin1_sample
   \<and> chunks latin1_sample
       = [(0x63, ''c''), (0x61, ''a''), (0x66, ''f''), (0xFFFD, [CHR 0xE9]), (0x0A, [CHR 0x0A])]
   \<and> cleanXMLContent latin1_sample = [CHR ''c'', CHR ''a'', CHR ''f'', CHR 0xE9]
   \<and> removedChunk [CHR 0x0A] \<and> removedChunk [CHR 0xC2, CHR 0x85] \<and> removedChunk [CHR 0x07]
   \<and> \<not> removedChunk [CHR 0xE9] \<and> \<not> removedChunk [CHR 0xE4, CHR 0xB8, CHR 0x80]"
proof -
  have v: "ValidString sanitize_sample" "\<not> ValidString latin1_sample"
    by (simp_all add: sanitize_sample_def latin1_sample_def utf8_eval)
  have c: "chunks sanitize_sample
       = [(0x85, [CHR 0xC2, CHR 0x85]), (0x61, ''a''), (0x07, [CHR 0x07]), (0x62, ''b''),
          (0x4E00, [CHR 0xE4, CHR 0xB8, CHR 0x80])]"
    "chunks latin1_sample
       = [(0x63, ''c''), (0x61, ''a''), (0x66, ''f''), (0xFFFD, [CHR 0xE9]), (0x0A, [CHR 0x0A])]"
    by (simp_all add: sanitize_sample_def latin1_sample_def utf8_eval)
  have rm: "removedChunk [CHR 0x0A]" "removedChunk [CHR 0xC2, CHR 0x85]" "removedChunk [CHR 0x07]"
    "\<not> removedChunk [CHR 0xE9]" "\<not> removedChunk [CHR 0xE4, CHR 0xB8, CHR 0x80]"
    "\<not> removedChunk ''a''" "\<not> removedChunk ''b''" "\<not> removedChunk ''c''" "\<not> removedChunk ''f''"
    by (simp_all add: removedChunk_def asciiControl_def byte_def)
  note s = cleanXMLContent_removes_control_code_points [of sanitize_sample]
  note l = cleanXMLContent_removes_control_code_points [of latin1_sample]
  have cs: "cleanXMLContent sanitize_sample = [CHR ''a'', CHR ''b'', CHR 0xE4, CHR 0xB8, CHR 0x80]"
    using s c(1) rm by simp
  have cl: "cleanXMLContent latin1_sample = [CHR ''c'', CHR ''a'', CHR ''f'', CHR 0xE9]"
    using l c(2) rm by simp
  have rs: "runes (cleanXMLContent sanitize_sample) = [0x61, 0x62, 0x4E00]"
  proof -
    have "map fst (chunks sanitize_sample) = runes sanitize_sample"
      using s by blast
    then have "runes sanitize_sample = [0x85, 0x61, 0x07, 0x62, 0x4E00]"
      unfolding c(1) by simp
    moreover have "runes (cleanXMLContent sanitize_sample)
        = filter (\<lambda>r. \<not> illegal r) (runes sanitize_sample)"
      using s v(1) by blast
    ultimately show ?thesis by (simp add: illegal_def)
  qed
  have i: "cleanXMLContent (cleanXMLContent sanitize_sample) = cleanXMLContent sanitize_sample"
    "subseq (cleanXMLContent sanitize_sample) sanitize_sample"
    using s v(1) by blast+
  show ?thesis by (intro conjI) (fact v c cs cl rs i rm)+
qed

text \<open>
  Claim C6 as stated fails twice. The bytes \<open>C2 0A 85\<close> are not well-formed UTF-8:
  \<open>C2\<close> is not followed by a continuation byte, so it and \<open>85\<close> each count as
  U+FFFD and only the line feed is removed; what is left, \<open>C2 85\<close>, is the encoding
  of U+0085, which a second pass removes: the function is not idempotent. And the
  byte \<open>0x80\<close> inside \<open>E4 B8 80\<close> (U+4E00) is in the range \<open>0x7F\<close> to \<open>0x9F\<close> and is
  kept.
\<close>

theorem cleanXMLContent_byte_claim_counterexample:
  "cleanXMLContent [CHR 0xC2, CHR 0x0A, CHR 0x85] = [CHR 0xC2, CHR 0x85]
   \<and> cleanXMLContent (cleanXMLContent [CHR 0xC2, CHR 0x0A, CHR 0x85]) = []
   \<and> cleanXMLContent [CHR 0xE4, CHR 0xB8, CHR 0x80] = [CHR 0xE4, CHR 0xB8, CHR 0x80]"
  by (simp add: utf8_eval)


section \<open>Data model and the libraries the programs call\<close>

text \<open>
  \<open>time.Time\<close>: an instant (nanoseconds since January 1 of year 1, 00:00 UTC, the
  origin of Go's own representation) and the offset in seconds of the location the
  time is shown in. The zero value \<open>time.Time{}\<close> is that origin, in UTC.
  \<open>t.After(u)\<close> compares the instants.
\<close>

datatype Time = Time (instant: int) (zone: int)

definition zeroTime :: Time where
  "zeroTime = Time 0 0"

definition After :: "Time \<Rightarrow> Time \<Rightarrow> bool" where
  "After t u = (instant u < instant t)"

text \<open>\<open>t.In(loc)\<close> for a fixed zone: the same instant, shown at another offset.\<close>

definition In :: "Time \<Rightarrow> int \<Rightarrow> Time" where
  "In t off = Time (instant t) off"

text \<open>
  \<open>url.URL\<close>, with the two fields the program reads; \<open>gofeed.Item\<close> and
  \<open>gofeed.Feed\<close> likewise.
\<close>

record URL =
  Scheme :: string
  Host :: string

record Item =
  ItemTitle :: string
  ItemLink :: string
  Published :: string
  Updated :: string

record Feed =
  FeedTitle :: string
  FeedLink :: string
  Items :: "Item list"

text \<open>
  The Go standard library and gofeed are not part of the repository. The functions of
  theirs that the programs call are parameters of the model: an error is the text that
  \<open>%v\<close> prints for it.
  \<^item> \<open>time_Parse layout value\<close> is \<open>time.Parse(layout, value)\<close>;
  \<^item> \<open>time_Format t layout\<close> is \<open>t.Format(layout)\<close>;
  \<^item> \<open>url_Parse\<close> is \<open>url.Parse\<close>;
  \<^item> \<open>fp_ParseString\<close> is \<open>gofeed.NewParser().ParseString\<close>;
  \<^item> \<open>json_string\<close> is the JSON encoding \<open>json.Marshal\<close> gives a string,
    quotes included.
\<close>

record lib =
  time_Parse :: "string \<Rightarrow> string \<Rightarrow> string + Time"
  time_Format :: "Time \<Rightarrow> string \<Rightarrow> string"
  url_Parse :: "string \<Rightarrow> string + URL"
  fp_ParseString :: "string \<Rightarrow> string + Feed"
  json_string :: "string \<Rightarrow> string"

section \<open>Time normalizer: \<open>parseTime\<close>, \<open>formatTime\<close>\<close>

text \<open>The layouts \<open>time.RFC3339\<close>, \<open>time.RFC3339Nano\<close>, \<open>time.RFC1123Z\<close>, \<open>time.RFC1123\<close>.\<close>

definition RFC3339 :: string where
  "RFC3339 = ''2006-01-02T15:04:05Z07:00''"

definition RFC3339Nano :: string where
  "RFC3339Nano = ''2006-01-02T15:04:05.999999999Z07:00''"

definition RFC1123Z :: string where
  "RFC1123Z = ''Mon, 02 Jan 2006 15:04:05 -0700''"

definition RFC1123 :: string where
  "RFC1123 = ''Mon, 02 Jan 2006 15:04:05 MST''"

definition formats :: "string list" where
  "formats = [RFC3339, RFC3339Nano, RFC1123Z, RFC1123]"

text \<open>
  \<^verbatim>\<open>for _, format := range formats {
      if t, err := time.Parse(format, timeStr); err == nil { return t, nil }
  }
  return time.Time{}, fmt.Errorf("unable to parse time: %s", timeStr)\<close>
\<close>

fun parseTime_loop :: "lib \<Rightarrow> string list \<Rightarrow> string \<Rightarrow> string + Time" where
  "parseTime_loop l [] timeStr = Inl (''unable to parse time: '' @ timeStr)"
| "parseTime_loop l (format # rest) timeStr =
     (case time_Parse l format timeStr of
        Inr t \<Rightarrow> Inr t
      | Inl err \<Rightarrow> parseTime_loop l rest timeStr)"

definition parseTime :: "lib \<Rightarrow> string \<Rightarrow> string + Time" where
  "parseTime l timeStr = parseTime_loop l formats timeStr"

definition displayLayout :: string where
  "displayLayout = ''January 2, 2006''"

definition formatTime :: "lib \<Rightarrow> Time \<Rightarrow> string" where
  "formatTime l t = time_Format l t displayLayout"

section \<open>Domain extraction: \<open>extractDomain\<close>\<close>

text \<open>
  \<open>u.Hostname()\<close> is \<open>splitHostPort(u.Host)\<close> without the port: a valid port (a
  colon and digits only) after the last colon is cut, then the brackets of an IPv6
  literal.
\<close>

fun LastIndexByte :: "string \<Rightarrow> char \<Rightarrow> nat option" where
  "LastIndexByte [] c = None"
| "LastIndexByte (x # xs) c =
     (case LastIndexByte xs c of
        Some i \<Rightarrow> Some (Suc i)
      | None \<Rightarrow> if x = c then Some 0 else None)"

definition isDigit :: "char \<Rightarrow> bool" where
  "isDigit b = (byte CHR ''0'' \<le> byte b \<and> byte b \<le> byte CHR ''9'')"

definition validOptionalPort :: "string \<Rightarrow> bool" where
  "validOptionalPort port =
     (case port of
        [] \<Rightarrow> True
      | p # ds \<Rightarrow> p = CHR '':'' \<and> list_all isDigit ds)"

definition stripBrackets :: "string \<Rightarrow> string" where
  "stripBrackets host =
     (if host \<noteq> [] \<and> hd host = CHR ''['' \<and> last host = CHR '']''
      then butlast (tl host) else host)"

definition Hostname :: "URL \<Rightarrow> string" where
  "Hostname u =
     (case LastIndexByte (Host u) CHR '':'' of
        Some colon \<Rightarrow>
          if validOptionalPort (drop colon (Host u)) then stripBrackets (take colon (Host u))
          else stripBrackets (Host u)
      | None \<Rightarrow> stripBrackets (Host u))"

text \<open>
  \<^verbatim>\<open>u, err := url.Parse(urlStr)
  if err != nil { return "", err }
  domain := u.Hostname()
  protocol := "https://"
  if u.Scheme != "" { protocol = u.Scheme + "://" }
  fullURL := protocol + domain
  return fullURL, nil\<close>
\<close>

definition extractDomain :: "lib \<Rightarrow> string \<Rightarrow> string + string" where
  "extractDomain l urlStr =
     (case url_Parse l urlStr of
        Inl err \<Rightarrow> Inl err
      | Inr u \<Rightarrow>
          let domain = Hostname u;
              protocol = (if Scheme u \<noteq> [] then Scheme u @ ''://'' else ''https://'')
          in Inr (protocol @ domain))"


section \<open>The outside world\<close>

text \<open>
  What the programs reach over the network is state and answers from outside:
  \<^item> \<open>http_Get\<close>: what \<open>http.Get(feedURL)\<close> followed by reading the body gives, an
    error text or the body (a response with a status other than 200 is not an
    error of \<open>http.Get\<close>: its body is read like any other);
  \<^item> \<open>time_Now n\<close>: the \<open>n\<close>-th reading of the clock by \<open>time.Now()\<close>;
  \<^item> \<open>fault n\<close>: what goes wrong at the \<open>n\<close>-th call to the remote store, if
    anything.
  The remote store holds one content per path. Nobody else writes to it during a run.
\<close>

record 'f env =
  http_Get :: "string \<Rightarrow> string + string"
  time_Now :: "nat \<Rightarrow> Time"
  fault :: "nat \<Rightarrow> 'f option"

record world =
  files :: "string \<rightharpoonup> string"
  calls :: nat
  ticks :: nat

definition Now :: "'f env \<Rightarrow> world \<Rightarrow> Time \<times> world" where
  "Now e w = (time_Now e (ticks w), w\<lparr>ticks := Suc (ticks w)\<rparr>)"

text \<open>
  \<^verbatim>\<open>func getBeijingTime() time.Time {
      beijingTimeZone := time.FixedZone("CST", 8*3600)
      return time.Now().In(beijingTimeZone)
  }\<close>
\<close>

definition getBeijingTime :: "'f env \<Rightarrow> world \<Rightarrow> Time \<times> world" where
  "getBeijingTime e w = (case Now e w of (t, w') \<Rightarrow> (In t (8 * 3600), w'))"

definition logLayout :: string where
  "logLayout = ''Mon Jan 2 15:04:2006''"

text \<open>
  The text of a log entry,
  \<^verbatim>\<open>fmt.Sprintf("[%s] [<stage>] %s: %v", getBeijingTime().Format("Mon Jan 2 15:04:2006"), subject, err)\<close>
  with the clock read while the arguments are evaluated, before the entry is written.
\<close>

definition logLine :: "lib \<Rightarrow> 'f env \<Rightarrow> string \<Rightarrow> string \<Rightarrow> string \<Rightarrow> world \<Rightarrow> string \<times> world" where
  "logLine l e stage subject err w =
     (case getBeijingTime e w of (t, w') \<Rightarrow>
        (''['' @ time_Format l t logLayout @ ''] ['' @ stage @ ''] '' @ subject @ '': '' @ err, w'))"

definition blankLine :: string where
  "blankLine = [CHR 0x0A, CHR 0x0A]"

section \<open>Remote log appender\<close>

subsection \<open>The Git-hosted variant: \<open>logMessage\<close>\<close>

text \<open>
  The calls of the go-github client. \<open>GetContents\<close> returns a file, or an error
  together with the HTTP response, or, when no response arrived at all (the request
  could not be sent, the connection failed), an error and a nil response. The
  version token of a file (its blob SHA) identifies its content and is modelled by the
  content itself. \<open>CreateFile\<close> is refused for a path that exists, \<open>UpdateFile\<close> for
  a token that is not the current one.
\<close>

datatype github_fault = NoResponse | Status nat | Undecodable

datatype contents =
    GetFile "string option" string
  | GetErr "nat option"

definition StatusNotFound :: nat where
  "StatusNotFound = 404"

definition GetContents :: "github_fault env \<Rightarrow> string \<Rightarrow> world \<Rightarrow> contents \<times> world" where
  "GetContents e path w =
     (case fault e (calls w) of
        Some NoResponse \<Rightarrow> GetErr None
      | Some (Status code) \<Rightarrow> GetErr (Some code)
      | Some Undecodable \<Rightarrow>
          (case files w path of
             None \<Rightarrow> GetErr (Some StatusNotFound)
           | Some c \<Rightarrow> GetFile None c)
      | None \<Rightarrow>
          (case files w path of
             None \<Rightarrow> GetErr (Some StatusNotFound)
           | Some c \<Rightarrow> GetFile (Some c) c),
      w\<lparr>calls := Suc (calls w)\<rparr>)"

definition CreateFile :: "github_fault env \<Rightarrow> string \<Rightarrow> string \<Rightarrow> world \<Rightarrow> bool \<times> world" where
  "CreateFile e path content w =
     (if fault e (calls w) = None \<and> files w path = None
      then (True, w\<lparr>files := (files w)(path \<mapsto> content), calls := Suc (calls w)\<rparr>)
      else (False, w\<lparr>calls := Suc (calls w)\<rparr>))"

definition UpdateFile :: "github_fault env \<Rightarrow> string \<Rightarrow> string \<Rightarrow> string \<Rightarrow> world \<Rightarrow> bool \<times> world" where
  "UpdateFile e path content sha w =
     (if fault e (calls w) = None \<and> files w path = Some sha
      then (True, w\<lparr>files := (files w)(path \<mapsto> content), calls := Suc (calls w)\<rparr>)
      else (False, w\<lparr>calls := Suc (calls w)\<rparr>))"

text \<open>
  A run either returns or panics. \<open>resp.StatusCode\<close> on a nil response is a nil
  pointer dereference.
\<close>

datatype panic = NilPointerDereference

definition andThen :: "panic + 'a \<Rightarrow> ('a \<Rightarrow> panic + 'b) \<Rightarrow> panic + 'b" where
  "andThen r f = (case r of Inl p \<Rightarrow> Inl p | Inr x \<Rightarrow> f x)"

text \<open>
  \<^verbatim>\<open>filePath := "api/" + fileName
  fileContent := []byte(message + "\n\n")
  file, _, resp, err := client.Repositories.GetContents(...)
  if err != nil && resp.StatusCode == http.StatusNotFound {
      _, _, err := client.Repositories.CreateFile(..., Content: fileContent)
      if err != nil { fmt.Printf(...) }
      return
  } else if err != nil { fmt.Printf(...); return }
  decodedContent, err := file.GetContent()
  if err != nil { fmt.Printf(...); return }
  updatedContent := append([]byte(decodedContent), fileContent...)
  _, _, err = client.Repositories.UpdateFile(..., Content: updatedContent, SHA: *file.SHA)
  if err != nil { fmt.Printf(...) }\<close>
  What is printed to the standard output is not modelled.
\<close>

definition logMessage :: "github_fault env \<Rightarrow> string \<Rightarrow> string \<Rightarrow> world \<Rightarrow> panic + world" where
  "logMessage e message fileName w =
     (let filePath = ''api/'' @ fileName;
          fileContent = message @ blankLine
      in case GetContents e filePath w of
           (GetErr None, w1) \<Rightarrow> Inl NilPointerDereference
         | (GetErr (Some code), w1) \<Rightarrow>
             if code = StatusNotFound then Inr (snd (CreateFile e filePath fileContent w1))
             else Inr w1
         | (GetFile None sha, w1) \<Rightarrow> Inr w1
         | (GetFile (Some decodedContent) sha, w1) \<Rightarrow>
             Inr (snd (UpdateFile e filePath (decodedContent @ fileContent) sha w1)))"

definition logError :: "github_fault env \<Rightarrow> string \<Rightarrow> world \<Rightarrow> panic + world" where
  "logError e message w = logMessage e message ''error.log'' w"

subsection \<open>The object-storage variant: \<open>logError\<close>\<close>

text \<open>
  The calls of the COS client. \<open>Object.Get\<close> gives the error \<open>NoSuchKey\<close>, another
  error, or a body; the program reads the body with \<open>io.ReadAll\<close> and drops the
  error of the read, so a read that breaks off after \<open>n\<close> bytes yields those bytes.
\<close>

datatype cos_fault = Failed | ShortRead nat

datatype cos_object = NoSuchKey | OtherError | Body string

definition Object_Get :: "cos_fault env \<Rightarrow> string \<Rightarrow> world \<Rightarrow> cos_object \<times> world" where
  "Object_Get e key w =
     (case fault e (calls w) of
        Some Failed \<Rightarrow> OtherError
      | Some (ShortRead n) \<Rightarrow>
          (case files w key of None \<Rightarrow> NoSuchKey | Some c \<Rightarrow> Body (take n c))
      | None \<Rightarrow>
          (case files w key of None \<Rightarrow> NoSuchKey | Some c \<Rightarrow> Body c),
      w\<lparr>calls := Suc (calls w)\<rparr>)"

definition Object_Put :: "cos_fault env \<Rightarrow> string \<Rightarrow> string \<Rightarrow> world \<Rightarrow> bool \<times> world" where
  "Object_Put e key content w =
     (if fault e (calls w) = None
      then (True, w\<lparr>files := (files w)(key \<mapsto> content), calls := Suc (calls w)\<rparr>)
      else (False, w\<lparr>calls := Suc (calls w)\<rparr>))"

text \<open>
  \<^verbatim>\<open>var existingLog []byte
  resp, err := client.Object.Get(context.Background(), "rss/error.log", nil)
  if err != nil {
      if errResp, ok := err.(*cos.ErrorResponse); ok && errResp.Code == "NoSuchKey" {
          existingLog = nil
      } else { fmt.Printf(...); return }
  } else {
      defer resp.Body.Close()
      existingLog, _ = io.ReadAll(resp.Body)
  }
  newLog := append(existingLog, []byte(message+"\n\n")...)
  _, err = client.Object.Put(context.Background(), "rss/error.log", bytes.NewReader(newLog), nil)
  if err != nil { fmt.Printf(...) }\<close>
\<close>

definition cos_logError :: "cos_fault env \<Rightarrow> string \<Rightarrow> world \<Rightarrow> world" where
  "cos_logError e message w =
     (case Object_Get e ''rss/error.log'' w of
        (OtherError, w1) \<Rightarrow> w1
      | (NoSuchKey, w1) \<Rightarrow> snd (Object_Put e ''rss/error.log'' ([] @ message @ blankLine) w1)
      | (Body existingLog, w1) \<Rightarrow>
          snd (Object_Put e ''rss/error.log'' (existingLog @ message @ blankLine) w1))"

text \<open>The content of a remote object, empty when the object is absent.\<close>

definition contentOf :: "world \<Rightarrow> string \<Rightarrow> string" where
  "contentOf w path = (case files w path of None \<Rightarrow> [] | Some c \<Rightarrow> c)"


lemma logMessage_appends:
  assumes "fault e (calls w) = None" and "fault e (Suc (calls w)) = None"
  shows "\<exists>w'. logMessage e line fileName w = Inr w'
     \<and> files w' (''api/'' @ fileName) = Some (contentOf w (''api/'' @ fileName) @ line @ blankLine)
     \<and> (\<forall>p. p \<noteq> ''api/'' @ fileName \<longrightarrow> files w' p = files w p)
     \<and> calls w' = Suc (Suc (calls w)) \<and> ticks w' = ticks w"
  using assms
  by (cases "files w (''api/'' @ fileName)")
     (simp_all add: logMessage_def GetContents_def CreateFile_def UpdateFile_def contentOf_def Let_def)

lemma cos_logError_appends:
  assumes "fault e (calls w) = None" and "fault e (Suc (calls w)) = None"
  shows "files (cos_logError e line w) ''rss/error.log'' = Some (contentOf w ''rss/error.log'' @ line @ blankLine)
     \<and> (\<forall>p. p \<noteq> ''rss/error.log'' \<longrightarrow> files (cos_logError e line w) p = files w p)
     \<and> calls (cos_logError e line w) = Suc (Suc (calls w)) \<and> ticks (cos_logError e line w) = ticks w"
  using assms
  by (cases "files w ''rss/error.log''")
     (simp_all add: cos_logError_def Object_Get_def Object_Put_def contentOf_def)

subsection \<open>The appenders when the store answers\<close>

text \<open>
  When the store answers the read and the write, and the read is complete, an append
  to an absent object creates it with exactly the line and a blank line, and an append
  to an object with content \<open>C\<close> writes exactly \<open>C\<close>, the line and a blank line; the
  previous content is a prefix of the new one. Both variants.
\<close>

lemma appendLog_appends_line:
  assumes "fault e (calls w) = None" and "fault e (Suc (calls w)) = None"
    and "fault e' (calls w) = None" and "fault e' (Suc (calls w)) = None"
  shows "(\<exists>w'. logMessage e line fileName w = Inr w'
        \<and> files w' (''api/'' @ fileName) = Some (contentOf w (''api/'' @ fileName) @ line @ blankLine)
        \<and> prefix (contentOf w (''api/'' @ fileName)) (contentOf w' (''api/'' @ fileName)))
     \<and> files (cos_logError e' line w) ''rss/error.log''
         = Some (contentOf w ''rss/error.log'' @ line @ blankLine)
     \<and> prefix (contentOf w ''rss/error.log'') (contentOf (cos_logError e' line w) ''rss/error.log'')"
proof -
  obtain w' where g: "logMessage e line fileName w = Inr w'"
    "files w' (''api/'' @ fileName) = Some (contentOf w (''api/'' @ fileName) @ line @ blankLine)"
    using logMessage_appends [OF assms(1,2)] by blast
  have gp: "prefix (contentOf w (''api/'' @ fileName)) (contentOf w' (''api/'' @ fileName))"
    using g(2) by (simp add: contentOf_def)
  note c = cos_logError_appends [OF assms(3,4), of line]
  have cp: "prefix (contentOf w ''rss/error.log'') (contentOf (cos_logError e' line w) ''rss/error.log'')"
    using c by (simp add: contentOf_def)
  show ?thesis using g gp c cp by blast
qed

text \<open>
  A world where the store answers every call, no feed can be fetched and the clock
  advances by one nanosecond per reading; and a store that holds the log \<open>A\<close>, a blank
  line, under both paths.
\<close>

definition calm :: "'f env" where
  "calm = \<lparr>http_Get = (\<lambda>u. Inl ''no such host''), time_Now = (\<lambda>n. Time (int n) 0), fault = (\<lambda>n. None)\<rparr>"

definition emptyWorld :: world where
  "emptyWorld = \<lparr>files = Map.empty, calls = 0, ticks = 0\<rparr>"

definition loggedWorld :: world where
  "loggedWorld = \<lparr>files = [''api/error.log'' \<mapsto> ''A'' @ blankLine, ''rss/error.log'' \<mapsto> ''A'' @ blankLine],
      calls = 0, ticks = 0\<rparr>"

lemma appendLog_appends_line_sample:
  "(\<exists>w'. logMessage calm ''B'' ''error.log'' loggedWorld = Inr w'
        \<and> files w' ''api/error.log'' = Some (''A'' @ blankLine @ ''B'' @ blankLine))
   \<and> files (cos_logError calm ''B'' loggedWorld) ''rss/error.log'' = Some (''A'' @ blankLine @ ''B'' @ blankLine)
   \<and> (\<exists>w'. logMessage calm ''B'' ''error.log'' emptyWorld = Inr w'
        \<and> files w' ''api/error.log'' = Some (''B'' @ blankLine))
   \<and> files (cos_logError calm ''B'' emptyWorld) ''rss/error.log'' = Some (''B'' @ blankLine)"
proof -
  have f: "fault (calm :: github_fault env) (calls loggedWorld) = None"
    "fault (calm :: github_fault env) (Suc (calls loggedWorld)) = None"
    "fault (calm :: cos_fault env) (calls loggedWorld) = None"
    "fault (calm :: cos_fault env) (Suc (calls loggedWorld)) = None"
    "fault (calm :: github_fault env) (calls emptyWorld) = None"
    "fault (calm :: github_fault env) (Suc (calls emptyWorld)) = None"
    "fault (calm :: cos_fault env) (calls emptyWorld) = None"
    "fault (calm :: cos_fault env) (Suc (calls emptyWorld)) = None"
    by (simp_all add: calm_def)
  show ?thesis
    using appendLog_appends_line [OF f(1-4), of "''B''" "''error.log''"]
      appendLog_appends_line [OF f(5-8), of "''B''" "''error.log''"]
    by (simp add: contentOf_def loggedWorld_def emptyWorld_def) blast
qed

subsection \<open>The appenders when the read of the log breaks off\<close>

text \<open>
  The Git-hosted \<open>logMessage\<close> never shortens a log: whatever the store answers, when
  it returns, the content before the call is a prefix of the content after it. A file
  whose content cannot be decoded is left as it is.
\<close>

lemma logMessage_keeps_prefix:
  assumes "logMessage e line fileName w = Inr w'"
  shows "prefix (contentOf w p) (contentOf w' p)"
proof (cases "p = ''api/'' @ fileName")
  case True
  show ?thesis using assms unfolding True
    by (auto simp: logMessage_def GetContents_def CreateFile_def UpdateFile_def contentOf_def Let_def
        split: option.splits github_fault.splits if_splits)
next
  case False
  then show ?thesis using assms
    by (auto simp: logMessage_def GetContents_def CreateFile_def UpdateFile_def contentOf_def Let_def
        split: option.splits github_fault.splits if_splits)
qed

text \<open>
  Claim C4 fails for the object-storage variant. \<open>logError\<close> reads the stored log with
  \<open>existingLog, _ = io.ReadAll(resp.Body)\<close> and drops the error of the read. When the
  read breaks off after \<open>n\<close> bytes and the write that follows succeeds, the object
  becomes the first \<open>n\<close> bytes of the log, the line and a blank line: the rest of the
  log is lost, and the prior content is no prefix of the new content.
\<close>

theorem cos_logError_short_read_truncates_log:
  assumes "files w ''rss/error.log'' = Some c"
    and "fault e (calls w) = Some (ShortRead n)" and "fault e (Suc (calls w)) = None"
  shows "files (cos_logError e line w) ''rss/error.log'' = Some (take n c @ line @ blankLine)"
  using assms by (simp add: cos_logError_def Object_Get_def Object_Put_def)

text \<open>
  The stored log is \<open>A\<close> and a blank line, the line is \<open>B\<close>, and the read of the body
  breaks off after one byte: the object becomes \<open>AB\<close> and a blank line. The claim asks
  for \<open>A\<close>, a blank line, \<open>B\<close>, a blank line.
\<close>

definition shortRead :: "cos_fault env" where
  "shortRead = calm\<lparr>fault := (\<lambda>n. if n = 0 then Some (ShortRead 1) else None)\<rparr>"

theorem cos_logError_short_read_truncates_log_witness:
  "contentOf loggedWorld ''rss/error.log'' = ''A'' @ blankLine
   \<and> fault shortRead (calls loggedWorld) = Some (ShortRead 1)
   \<and> fault shortRead (Suc (calls loggedWorld)) = None
   \<and> contentOf (cos_logError shortRead ''B'' loggedWorld) ''rss/error.log'' = ''AB'' @ blankLine
   \<and> ''AB'' @ blankLine \<noteq> ''A'' @ blankLine @ ''B'' @ blankLine
   \<and> \<not> prefix (contentOf loggedWorld ''rss/error.log'')
         (contentOf (cos_logError shortRead ''B'' loggedWorld) ''rss/error.log'')"
proof -
  have f: "files loggedWorld ''rss/error.log'' = Some (''A'' @ blankLine)"
    "fault shortRead (calls loggedWorld) = Some (ShortRead 1)"
    "fault shortRead (Suc (calls loggedWorld)) = None"
    by (simp_all add: loggedWorld_def shortRead_def calm_def)
  show ?thesis
    using f cos_logError_short_read_truncates_log [OF f, of "''B''"]
    by (simp add: contentOf_def blankLine_def)
qed

section \<open>Articles and the aggregate\<close>

text \<open>
  The Git-hosted variant's \<open>Article\<close> has the field \<open>DomainName\<close>; the object-storage
  variant's has not.
\<close>

record Article =
  DomainName :: string
  Name :: string
  Title :: string
  Link :: string
  Date :: string

record cos_Article =
  cos_Name :: string
  cos_Title :: string
  cos_Link :: string
  cos_Date :: string

text \<open>
  A Go slice is nil or holds elements: \<open>var articles []Article\<close> is nil, and
  \<open>append\<close> to a nil slice gives a slice that is not nil.
\<close>

datatype 'a slice = NilSlice | Slice "'a list"

fun elems :: "'a slice \<Rightarrow> 'a list" where
  "elems NilSlice = []"
| "elems (Slice xs) = xs"

fun append_slice :: "'a slice \<Rightarrow> 'a \<Rightarrow> 'a slice" where
  "append_slice NilSlice x = Slice [x]"
| "append_slice (Slice xs) x = Slice (xs @ [x])"

text \<open>
  \<open>sort.Slice(x, less)\<close> belongs to the Go standard library: the sorting algorithm is a
  parameter \<open>srt\<close> of the model. It looks at the elements through \<open>less\<close> only and
  leaves a nil slice nil.
\<close>

type_synonym 'a sorter = "('a \<Rightarrow> 'a \<Rightarrow> bool) \<Rightarrow> 'a list \<Rightarrow> 'a list"

fun sort_Slice :: "'a sorter \<Rightarrow> ('a \<Rightarrow> 'a \<Rightarrow> bool) \<Rightarrow> 'a slice \<Rightarrow> 'a slice" where
  "sort_Slice srt lessFn NilSlice = NilSlice"
| "sort_Slice srt lessFn (Slice xs) = Slice (srt lessFn xs)"

text \<open>
  The comparison of the sort:
  \<^verbatim>\<open>date1, _ := time.Parse("January 2, 2006", articles[i].Date)
  date2, _ := time.Parse("January 2, 2006", articles[j].Date)
  return date1.After(date2)\<close>
  The error of \<open>time.Parse\<close> is dropped; with an error, \<open>time.Parse\<close> returns the zero
  \<open>time.Time{}\<close>.
\<close>

definition dateOf :: "lib \<Rightarrow> string \<Rightarrow> Time" where
  "dateOf l d = (case time_Parse l displayLayout d of Inr t \<Rightarrow> t | Inl err \<Rightarrow> zeroTime)"

definition newer :: "lib \<Rightarrow> Article \<Rightarrow> Article \<Rightarrow> bool" where
  "newer l a b = After (dateOf l (Date a)) (dateOf l (Date b))"

definition cos_newer :: "lib \<Rightarrow> cos_Article \<Rightarrow> cos_Article \<Rightarrow> bool" where
  "cos_newer l a b = After (dateOf l (cos_Date a)) (dateOf l (cos_Date b))"

section \<open>\<open>fetchRSS\<close>, Git-hosted variant\<close>

text \<open>\<open>logError(config, fmt.Sprintf("[%s] [<stage>] %s: %v", ...))\<close>.\<close>

definition logStage :: "lib \<Rightarrow> github_fault env \<Rightarrow> string \<Rightarrow> string \<Rightarrow> string \<Rightarrow> world \<Rightarrow> panic + world" where
  "logStage l e stage subject err w =
     (case logLine l e stage subject err w of (line, w1) \<Rightarrow> logError e line w1)"

text \<open>
  \<^verbatim>\<open>mainSiteURL := feed.Link
  domainName, err := extractDomain(mainSiteURL)
  if err != nil {
      logError(config, fmt.Sprintf("[%s] [Extract domain error] %s: %v", ..., mainSiteURL, err))
      domainName = "unknown"
  }\<close>
\<close>

definition feedDomain :: "lib \<Rightarrow> github_fault env \<Rightarrow> Feed \<Rightarrow> world \<Rightarrow> panic + (string \<times> world)" where
  "feedDomain l e feed w =
     (let mainSiteURL = FeedLink feed
      in case extractDomain l mainSiteURL of
           Inr domainName \<Rightarrow> Inr (domainName, w)
         | Inl err \<Rightarrow>
             andThen (logStage l e ''Extract domain error'' mainSiteURL err w)
               (\<lambda>w1. Inr (''unknown'', w1)))"

text \<open>
  \<^verbatim>\<open>publishedTime, err := parseTime(item.Published)
  if err != nil && item.Updated != "" {
      publishedTime, err = parseTime(item.Updated)
  }
  if err != nil {
      logError(config, fmt.Sprintf("[%s] [Getting article time error] %s: %v", ..., item.Title, err))
      publishedTime = time.Now()
  }\<close>
\<close>

definition articleTime :: "lib \<Rightarrow> github_fault env \<Rightarrow> Item \<Rightarrow> world \<Rightarrow> panic + (Time \<times> world)" where
  "articleTime l e item w =
     (let r0 = parseTime l (Published item);
          r = (if isl r0 \<and> Updated item \<noteq> [] then parseTime l (Updated item) else r0)
      in case r of
           Inr publishedTime \<Rightarrow> Inr (publishedTime, w)
         | Inl err \<Rightarrow>
             andThen (logStage l e ''Getting article time error'' (ItemTitle item) err w)
               (\<lambda>w1. Inr (Now e w1)))"

text \<open>
  The body of \<open>for _, feedURL := range feeds\<close>; each \<open>continue\<close> returns the state
  for the next feed.
\<close>

definition fetchRSS_feed ::
  "lib \<Rightarrow> github_fault env \<Rightarrow> string \<Rightarrow> world \<times> Article slice \<Rightarrow> panic + (world \<times> Article slice)" where
  "fetchRSS_feed l e feedURL st =
     (case st of (w, articles) \<Rightarrow>
        case http_Get e feedURL of
          Inl err \<Rightarrow>
            andThen (logStage l e ''Get RSS error'' feedURL err w) (\<lambda>w1. Inr (w1, articles))
        | Inr bodyString \<Rightarrow>
            (case fp_ParseString l (cleanXMLContent bodyString) of
               Inl err \<Rightarrow>
                 andThen (logStage l e ''Parse RSS error'' feedURL err w) (\<lambda>w1. Inr (w1, articles))
             | Inr feed \<Rightarrow>
                 andThen (feedDomain l e feed w) (\<lambda>(domainName, w1).
                   case Items feed of
                     [] \<Rightarrow> Inr (w1, articles)
                   | item # others \<Rightarrow>
                       andThen (articleTime l e item w1) (\<lambda>(publishedTime, w2).
                         Inr (w2, append_slice articles
                           \<lparr>DomainName = domainName, Name = FeedTitle feed, Title = ItemTitle item,
                            Link = ItemLink item, Date = formatTime l publishedTime\<rparr>)))))"

fun fetchRSS_loop ::
  "lib \<Rightarrow> github_fault env \<Rightarrow> string list \<Rightarrow> world \<times> Article slice \<Rightarrow> panic + (world \<times> Article slice)" where
  "fetchRSS_loop l e [] st = Inr st"
| "fetchRSS_loop l e (feedURL # feeds) st =
     andThen (fetchRSS_feed l e feedURL st) (fetchRSS_loop l e feeds)"

text \<open>
  \<open>fetchRSS\<close> returns the sorted articles and the error \<open>nil\<close> (\<open>None\<close>), and leaves the
  world changed.
\<close>

definition fetchRSS ::
  "lib \<Rightarrow> github_fault env \<Rightarrow> Article sorter \<Rightarrow> string list \<Rightarrow> world
     \<Rightarrow> panic + ((Article slice \<times> string option) \<times> world)" where
  "fetchRSS l e srt feeds w =
     andThen (fetchRSS_loop l e feeds (w, NilSlice))
       (\<lambda>(w1, articles). Inr ((sort_Slice srt (newer l) articles, None), w1))"

section \<open>\<open>fetchRSS\<close>, object-storage variant\<close>

definition cos_logStage :: "lib \<Rightarrow> cos_fault env \<Rightarrow> string \<Rightarrow> string \<Rightarrow> string \<Rightarrow> world \<Rightarrow> world" where
  "cos_logStage l e stage subject err w =
     (case logLine l e stage subject err w of (line, w1) \<Rightarrow> cos_logError e line w1)"

text \<open>
  \<^verbatim>\<open>var publishedTime time.Time
  var err error
  if item.Published != "" {
      publishedTime, err = parseTime(item.Published)
  } else if item.Updated != "" {
      publishedTime, err = parseTime(item.Updated)
  }
  if err != nil {
      logError(config, fmt.Sprintf("[%s] [Getting article time error] %s: %v", ..., item.Title, err))
      publishedTime = time.Now()
  }\<close>
\<close>

definition cos_articleTime :: "lib \<Rightarrow> cos_fault env \<Rightarrow> Item \<Rightarrow> world \<Rightarrow> Time \<times> world" where
  "cos_articleTime l e item w =
     (let r = (if Published item \<noteq> [] then parseTime l (Published item)
               else if Updated item \<noteq> [] then parseTime l (Updated item)
               else Inr zeroTime)
      in case r of
           Inr publishedTime \<Rightarrow> (publishedTime, w)
         | Inl err \<Rightarrow> Now e (cos_logStage l e ''Getting article time error'' (ItemTitle item) err w))"

definition cos_fetchRSS_feed ::
  "lib \<Rightarrow> cos_fault env \<Rightarrow> string \<Rightarrow> world \<times> cos_Article slice \<Rightarrow> world \<times> cos_Article slice" where
  "cos_fetchRSS_feed l e feedURL st =
     (case st of (w, articles) \<Rightarrow>
        case http_Get e feedURL of
          Inl err \<Rightarrow> (cos_logStage l e ''Get RSS error'' feedURL err w, articles)
        | Inr bodyString \<Rightarrow>
            (case fp_ParseString l (cleanXMLContent bodyString) of
               Inl err \<Rightarrow> (cos_logStage l e ''Parse RSS error'' feedURL err w, articles)
             | Inr feed \<Rightarrow>
                 (case Items feed of
                    [] \<Rightarrow> (w, articles)
                  | item # others \<Rightarrow>
                      (case cos_articleTime l e item w of (publishedTime, w1) \<Rightarrow>
                         (w1, append_slice articles
                           \<lparr>cos_Name = FeedTitle feed, cos_Title = ItemTitle item,
                            cos_Link = ItemLink item, cos_Date = formatTime l publishedTime\<rparr>)))))"

fun cos_fetchRSS_loop ::
  "lib \<Rightarrow> cos_fault env \<Rightarrow> string list \<Rightarrow> world \<times> cos_Article slice \<Rightarrow> world \<times> cos_Article slice" where
  "cos_fetchRSS_loop l e [] st = st"
| "cos_fetchRSS_loop l e (feedURL # feeds) st =
     cos_fetchRSS_loop l e feeds (cos_fetchRSS_feed l e feedURL st)"

definition cos_fetchRSS ::
  "lib \<Rightarrow> cos_fault env \<Rightarrow> cos_Article sorter \<Rightarrow> string list \<Rightarrow> world
     \<Rightarrow> (cos_Article slice \<times> string option) \<times> world" where
  "cos_fetchRSS l e srt feeds w =
     (case cos_fetchRSS_loop l e feeds (w, NilSlice) of (w1, articles) \<Rightarrow>
        ((sort_Slice srt (cos_newer l) articles, None), w1))"


section \<open>\<open>sort.Slice\<close> as the Go library implements it\<close>

text \<open>
  The documentation of \<open>sort.Slice\<close> promises a sorted slice and says that the sort is
  not guaranteed to be stable. Since Go 1.19 the function runs pattern-defeating
  quicksort (\<open>pdqsort_func\<close> in \<open>sort/zsortfunc.go\<close>); this section follows that
  file. \<open>data.Less(i, j)\<close> is \<open>lt (xs ! i) (xs ! j)\<close> and \<open>data.Swap(i, j)\<close> is
  \<open>swap xs i j\<close>.
\<close>

definition swap :: "'a list \<Rightarrow> nat \<Rightarrow> nat \<Rightarrow> 'a list" where
  "swap xs i j = xs[i := xs ! j, j := xs ! i]"

text \<open>
  \<^verbatim>\<open>for i := a + 1; i < b; i++ {
      for j := i; j > a && data.Less(j, j-1); j-- { data.Swap(j, j-1) }
  }\<close>
\<close>

fun insertionSort_inner :: "('a \<Rightarrow> 'a \<Rightarrow> bool) \<Rightarrow> nat \<Rightarrow> nat \<Rightarrow> 'a list \<Rightarrow> 'a list" where
  "insertionSort_inner lt a 0 xs = xs"
| "insertionSort_inner lt a (Suc j) xs =
     (if a < Suc j \<and> lt (xs ! Suc j) (xs ! j)
      then insertionSort_inner lt a j (swap xs (Suc j) j) else xs)"

definition insertionSort_func :: "('a \<Rightarrow> 'a \<Rightarrow> bool) \<Rightarrow> 'a list \<Rightarrow> nat \<Rightarrow> nat \<Rightarrow> 'a list" where
  "insertionSort_func lt xs a b = fold (\<lambda>i ys. insertionSort_inner lt a i ys) [Suc a..<b] xs"

text \<open>
  \<^verbatim>\<open>root := lo
  for {
      child := 2*root + 1
      if child >= hi { return }
      if child+1 < hi && data.Less(first+child, first+child+1) { child++ }
      if !data.Less(first+root, first+child) { return }
      data.Swap(first+root, first+child)
      root = child
  }\<close>
\<close>

function siftDown_func :: "('a \<Rightarrow> 'a \<Rightarrow> bool) \<Rightarrow> 'a list \<Rightarrow> nat \<Rightarrow> nat \<Rightarrow> nat \<Rightarrow> 'a list" where
  "siftDown_func lt xs root hi first =
     (let child = 2 * root + 1
      in if hi \<le> child then xs
         else let child' = (if child + 1 < hi \<and> lt (xs ! (first + child)) (xs ! (first + child + 1))
                            then child + 1 else child)
              in if \<not> lt (xs ! (first + root)) (xs ! (first + child')) then xs
                 else siftDown_func lt (swap xs (first + root) (first + child')) child' hi first)"
  by pat_completeness auto
termination
  by (relation "measure (\<lambda>(lt, xs, root, hi, first). hi - root)") auto

declare siftDown_func.simps [simp del]

text \<open>
  \<^verbatim>\<open>first := a; lo := 0; hi := b - a
  for i := (hi - 1) / 2; i >= 0; i-- { siftDown_func(data, i, hi, first) }
  for i := hi - 1; i >= 0; i-- {
      data.Swap(first, first+i)
      siftDown_func(data, lo, i, first)
  }\<close>
\<close>

definition heapSort_func :: "('a \<Rightarrow> 'a \<Rightarrow> bool) \<Rightarrow> 'a list \<Rightarrow> nat \<Rightarrow> nat \<Rightarrow> 'a list" where
  "heapSort_func lt xs a b =
     (let first = a; lo = 0; hi = b - a;
          heap = fold (\<lambda>i ys. siftDown_func lt ys i hi first) (rev [0..<Suc ((hi - 1) div 2)]) xs
      in fold (\<lambda>i ys. siftDown_func lt (swap ys first (first + i)) lo i first) (rev [0..<hi]) heap)"

text \<open>
  \<open>partition_func\<close>. The indices \<open>i\<close> and \<open>j\<close> are Go \<open>int\<close>s; \<open>j\<close> may fall below
  \<open>i\<close>, so both are integers here.
  \<^verbatim>\<open>for i <= j && data.Less(i, a) { i++ }
  for i <= j && !data.Less(j, a) { j-- }\<close>
\<close>

function scanUp :: "('a \<Rightarrow> 'a \<Rightarrow> bool) \<Rightarrow> 'a list \<Rightarrow> nat \<Rightarrow> int \<Rightarrow> int \<Rightarrow> int" where
  "scanUp lt xs a i j =
     (if i \<le> j \<and> lt (xs ! nat i) (xs ! a) then scanUp lt xs a (i + 1) j else i)"
  by pat_completeness auto
termination
  by (relation "measure (\<lambda>(lt, xs, a, i, j). nat (j + 1 - i))") auto

declare scanUp.simps [simp del]

function scanDown :: "('a \<Rightarrow> 'a \<Rightarrow> bool) \<Rightarrow> 'a list \<Rightarrow> nat \<Rightarrow> int \<Rightarrow> int \<Rightarrow> int" where
  "scanDown lt xs a i j =
     (if i \<le> j \<and> \<not> lt (xs ! nat j) (xs ! a) then scanDown lt xs a i (j - 1) else j)"
  by pat_completeness auto
termination
  by (relation "measure (\<lambda>(lt, xs, a, i, j). nat (j + 1 - i))") auto

declare scanDown.simps [simp del]

text \<open>
  \<^verbatim>\<open>for {
      for i <= j && data.Less(i, a) { i++ }
      for i <= j && !data.Less(j, a) { j-- }
      if i > j { break }
      data.Swap(i, j)
      i++
      j--
  }
  data.Swap(j, a)
  return j, false\<close>
\<close>

function partition_loop :: "('a \<Rightarrow> 'a \<Rightarrow> bool) \<Rightarrow> 'a list \<Rightarrow> nat \<Rightarrow> int \<Rightarrow> int \<Rightarrow> 'a list \<times> nat" where
  "partition_loop lt xs a i j =
     (let i' = scanUp lt xs a i j; j' = scanDown lt xs a i' j
      in if j' < i' then (swap xs (nat j') a, nat j')
         else partition_loop lt (swap xs (nat i') (nat j')) a (i' + 1) (j' - 1))"
  by pat_completeness auto
termination
proof (relation "measure (\<lambda>(lt, xs, a, i, j). nat (j + 1 - i))")
  show "wf (measure (\<lambda>(lt, xs, a, i, j). nat (j + 1 - i)))" by simp
next
  fix lt :: "'a \<Rightarrow> 'a \<Rightarrow> bool" and xs a i j i' j'
  assume h: "i' = scanUp lt xs a i j" "j' = scanDown lt xs a i' j" "\<not> j' < i'"
  have up: "i \<le> scanUp lt xs a i j" for i
    by (induction lt xs a i j rule: scanUp.induct) (subst scanUp.simps, auto)
  have down: "scanDown lt xs a i j \<le> j" for i j
    by (induction lt xs a i j rule: scanDown.induct) (subst scanDown.simps, auto)
  have "i \<le> i'" "j' \<le> j" using h up down by auto
  then show "((lt, swap xs (nat i') (nat j'), a, i' + 1, j' - 1), lt, xs, a, i, j)
      \<in> measure (\<lambda>(lt, xs, a, i, j). nat (j + 1 - i))"
    using h(3) by simp
qed

declare partition_loop.simps [simp del]

text \<open>
  \<^verbatim>\<open>data.Swap(a, pivot)
  i, j := a+1, b-1
  for i <= j && data.Less(i, a) { i++ }
  for i <= j && !data.Less(j, a) { j-- }
  if i > j { data.Swap(j, a); return j, true }
  data.Swap(i, j)
  i++
  j--\<close>
  and then the loop above.
\<close>

definition partition_func ::
  "('a \<Rightarrow> 'a \<Rightarrow> bool) \<Rightarrow> 'a list \<Rightarrow> nat \<Rightarrow> nat \<Rightarrow> nat \<Rightarrow> 'a list \<times> nat \<times> bool" where
  "partition_func lt xs a b pivot =
     (let xs1 = swap xs a pivot;
          i = scanUp lt xs1 a (int a + 1) (int b - 1);
          j = scanDown lt xs1 a i (int b - 1)
      in if j < i then (swap xs1 (nat j) a, nat j, True)
         else case partition_loop lt (swap xs1 (nat i) (nat j)) a (i + 1) (j - 1) of
                (xs2, mid) \<Rightarrow> (xs2, mid, False))"

text \<open>
  \<open>partitionEqual_func\<close>:
  \<^verbatim>\<open>data.Swap(a, pivot)
  i, j := a+1, b-1
  for {
      for i <= j && !data.Less(a, i) { i++ }
      for i <= j && data.Less(a, j) { j-- }
      if i > j { break }
      data.Swap(i, j)
      i++
      j--
  }
  return i\<close>
\<close>

function scanUpEqual :: "('a \<Rightarrow> 'a \<Rightarrow> bool) \<Rightarrow> 'a list \<Rightarrow> nat \<Rightarrow> int \<Rightarrow> int \<Rightarrow> int" where
  "scanUpEqual lt xs a i j =
     (if i \<le> j \<and> \<not> lt (xs ! a) (xs ! nat i) then scanUpEqual lt xs a (i + 1) j else i)"
  by pat_completeness auto
termination
  by (relation "measure (\<lambda>(lt, xs, a, i, j). nat (j + 1 - i))") auto

declare scanUpEqual.simps [simp del]

function scanDownEqual :: "('a \<Rightarrow> 'a \<Rightarrow> bool) \<Rightarrow> 'a list \<Rightarrow> nat \<Rightarrow> int \<Rightarrow> int \<Rightarrow> int" where
  "scanDownEqual lt xs a i j =
     (if i \<le> j \<and> lt (xs ! a) (xs ! nat j) then scanDownEqual lt xs a i (j - 1) else j)"
  by pat_completeness auto
termination
  by (relation "measure (\<lambda>(lt, xs, a, i, j). nat (j + 1 - i))") auto

declare scanDownEqual.simps [simp del]

function partitionEqual_loop :: "('a \<Rightarrow> 'a \<Rightarrow> bool) \<Rightarrow> 'a list \<Rightarrow> nat \<Rightarrow> int \<Rightarrow> int \<Rightarrow> 'a list \<times> nat" where
  "partitionEqual_loop lt xs a i j =
     (let i' = scanUpEqual lt xs a i j; j' = scanDownEqual lt xs a i' j
      in if j' < i' then (xs, nat i')
         else partitionEqual_loop lt (swap xs (nat i') (nat j')) a (i' + 1) (j' - 1))"
  by pat_completeness auto
termination
proof (relation "measure (\<lambda>(lt, xs, a, i, j). nat (j + 1 - i))")
  show "wf (measure (\<lambda>(lt, xs, a, i, j). nat (j + 1 - i)))" by simp
next
  fix lt :: "'a \<Rightarrow> 'a \<Rightarrow> bool" and xs a i j i' j'
  assume h: "i' = scanUpEqual lt xs a i j" "j' = scanDownEqual lt xs a i' j" "\<not> j' < i'"
  have up: "i \<le> scanUpEqual lt xs a i j" for i
    by (induction lt xs a i j rule: scanUpEqual.induct) (subst scanUpEqual.simps, auto)
  have down: "scanDownEqual lt xs a i j \<le> j" for i j
    by (induction lt xs a i j rule: scanDownEqual.induct) (subst scanDownEqual.simps, auto)
  have "i \<le> i'" "j' \<le> j" using h up down by auto
  then show "((lt, swap xs (nat i') (nat j'), a, i' + 1, j' - 1), lt, xs, a, i, j)
      \<in> measure (\<lambda>(lt, xs, a, i, j). nat (j + 1 - i))"
    using h(3) by simp
qed

declare partitionEqual_loop.simps [simp del]

definition partitionEqual_func ::
  "('a \<Rightarrow> 'a \<Rightarrow> bool) \<Rightarrow> 'a list \<Rightarrow> nat \<Rightarrow> nat \<Rightarrow> nat \<Rightarrow> 'a list \<times> nat" where
  "partitionEqual_func lt xs a b pivot =
     partitionEqual_loop lt (swap xs a pivot) a (int a + 1) (int b - 1)"


text \<open>
  \<open>partialInsertionSort_func\<close>, with \<open>maxSteps = 5\<close> and \<open>shortestShifting = 50\<close>:
  \<^verbatim>\<open>i := a + 1
  for j := 0; j < maxSteps; j++ {
      for i < b && !data.Less(i, i-1) { i++ }
      if i == b { return true }
      if b-a < shortestShifting { return false }
      data.Swap(i, i-1)
      if i-a >= 2 {
          for j := i - 1; j >= 1; j-- {
              if !data.Less(j, j-1) { break }
              data.Swap(j, j-1)
          }
      }
      if b-i >= 2 {
          for j := i + 1; j < b; j++ {
              if !data.Less(j, j-1) { break }
              data.Swap(j, j-1)
          }
      }
  }
  return false\<close>
\<close>

function skipSorted :: "('a \<Rightarrow> 'a \<Rightarrow> bool) \<Rightarrow> 'a list \<Rightarrow> nat \<Rightarrow> nat \<Rightarrow> nat" where
  "skipSorted lt xs b i =
     (if i < b \<and> \<not> lt (xs ! i) (xs ! (i - 1)) then skipSorted lt xs b (i + 1) else i)"
  by pat_completeness auto
termination
  by (relation "measure (\<lambda>(lt, xs, b, i). b - i)") auto

declare skipSorted.simps [simp del]

fun shiftLeft :: "('a \<Rightarrow> 'a \<Rightarrow> bool) \<Rightarrow> nat \<Rightarrow> 'a list \<Rightarrow> 'a list" where
  "shiftLeft lt 0 xs = xs"
| "shiftLeft lt (Suc j) xs =
     (if \<not> lt (xs ! Suc j) (xs ! j) then xs else shiftLeft lt j (swap xs (Suc j) j))"

function shiftRight :: "('a \<Rightarrow> 'a \<Rightarrow> bool) \<Rightarrow> nat \<Rightarrow> nat \<Rightarrow> 'a list \<Rightarrow> 'a list" where
  "shiftRight lt b j xs =
     (if j < b then (if \<not> lt (xs ! j) (xs ! (j - 1)) then xs
                     else shiftRight lt b (j + 1) (swap xs j (j - 1)))
      else xs)"
  by pat_completeness auto
termination
  by (relation "measure (\<lambda>(lt, b, j, xs). b - j)") auto

declare shiftRight.simps [simp del]

fun partialInsertionSort_steps ::
  "nat \<Rightarrow> ('a \<Rightarrow> 'a \<Rightarrow> bool) \<Rightarrow> 'a list \<Rightarrow> nat \<Rightarrow> nat \<Rightarrow> nat \<Rightarrow> 'a list \<times> bool" where
  "partialInsertionSort_steps 0 lt xs a b i = (xs, False)"
| "partialInsertionSort_steps (Suc steps) lt xs a b i =
     (let i' = skipSorted lt xs b i
      in if i' = b then (xs, True)
         else if b - a < 50 then (xs, False)
         else let xs1 = swap xs i' (i' - 1);
                  xs2 = (if 2 \<le> i' - a then shiftLeft lt (i' - 1) xs1 else xs1);
                  xs3 = (if 2 \<le> b - i' then shiftRight lt b (i' + 1) xs2 else xs2)
              in partialInsertionSort_steps steps lt xs3 a b i')"

definition partialInsertionSort_func ::
  "('a \<Rightarrow> 'a \<Rightarrow> bool) \<Rightarrow> 'a list \<Rightarrow> nat \<Rightarrow> nat \<Rightarrow> 'a list \<times> bool" where
  "partialInsertionSort_func lt xs a b = partialInsertionSort_steps 5 lt xs a b (a + 1)"

text \<open>
  \<open>breakPatterns_func\<close>, with the generator \<open>xorshift\<close> on 64-bit words and
  \<open>nextPowerOfTwo(length) = 1 << bits.Len(uint(length))\<close>:
  \<^verbatim>\<open>length := b - a
  if length >= 8 {
      random := xorshift(length)
      modulus := nextPowerOfTwo(length)
      idx := a + (length/4)*2 - 1
      for i := 0; i < 3; i++ {
          other := int(uint(random.Next()) & (modulus - 1))
          if other >= length { other -= length }
          data.Swap(idx-1+i, a+other)
      }
  }\<close>
\<close>

definition xorshift_Next :: "64 word \<Rightarrow> 64 word" where
  "xorshift_Next r =
     (let r1 = xor r (push_bit 13 r);
          r2 = xor r1 (drop_bit 7 r1)
      in xor r2 (push_bit 17 r2))"

fun bits_Len :: "nat \<Rightarrow> nat" where
  "bits_Len n = (if n = 0 then 0 else Suc (bits_Len (n div 2)))"

declare bits_Len.simps [simp del]

fun breakPatterns_steps :: "nat list \<Rightarrow> 64 word \<Rightarrow> 'a list \<Rightarrow> nat \<Rightarrow> nat \<Rightarrow> 'a list" where
  "breakPatterns_steps [] random xs a b = xs"
| "breakPatterns_steps (i # rest) random xs a b =
     (let length = b - a;
          random' = xorshift_Next random;
          other = unat random' mod (2 ^ bits_Len length);
          other' = (if length \<le> other then other - length else other);
          idx = a + (length div 4) * 2 - 1
      in breakPatterns_steps rest random' (swap xs (idx - 1 + i) (a + other')) a b)"

definition breakPatterns_func :: "'a list \<Rightarrow> nat \<Rightarrow> nat \<Rightarrow> 'a list" where
  "breakPatterns_func xs a b =
     (if 8 \<le> b - a then breakPatterns_steps [0, 1, 2] (of_nat (b - a)) xs a b else xs)"

text \<open>
  \<open>choosePivot_func\<close> with \<open>order2_func\<close>, \<open>median_func\<close> and \<open>medianAdjacent_func\<close>;
  \<open>shortestNinther = 50\<close>, \<open>maxSwaps = 12\<close>.
\<close>

datatype sortedHint = unknownHint | increasingHint | decreasingHint

definition order2_func :: "('a \<Rightarrow> 'a \<Rightarrow> bool) \<Rightarrow> 'a list \<Rightarrow> nat \<Rightarrow> nat \<Rightarrow> nat \<Rightarrow> nat \<times> nat \<times> nat" where
  "order2_func lt xs a b swaps = (if lt (xs ! b) (xs ! a) then (b, a, swaps + 1) else (a, b, swaps))"

definition median_func :: "('a \<Rightarrow> 'a \<Rightarrow> bool) \<Rightarrow> 'a list \<Rightarrow> nat \<Rightarrow> nat \<Rightarrow> nat \<Rightarrow> nat \<Rightarrow> nat \<times> nat" where
  "median_func lt xs a b c swaps =
     (case order2_func lt xs a b swaps of (a1, b1, s1) \<Rightarrow>
      case order2_func lt xs b1 c s1 of (b2, c2, s2) \<Rightarrow>
      case order2_func lt xs a1 b2 s2 of (a3, b3, s3) \<Rightarrow> (b3, s3))"

definition medianAdjacent_func :: "('a \<Rightarrow> 'a \<Rightarrow> bool) \<Rightarrow> 'a list \<Rightarrow> nat \<Rightarrow> nat \<Rightarrow> nat \<times> nat" where
  "medianAdjacent_func lt xs a swaps = median_func lt xs (a - 1) a (a + 1) swaps"

definition choosePivot_func :: "('a \<Rightarrow> 'a \<Rightarrow> bool) \<Rightarrow> 'a list \<Rightarrow> nat \<Rightarrow> nat \<Rightarrow> nat \<times> sortedHint" where
  "choosePivot_func lt xs a b =
     (let l = b - a;
          i = a + l div 4 * 1;
          j = a + l div 4 * 2;
          k = a + l div 4 * 3;
          (j', swaps) =
            (if 8 \<le> l then
               (if 50 \<le> l then
                  (case medianAdjacent_func lt xs i 0 of (i1, s1) \<Rightarrow>
                   case medianAdjacent_func lt xs j s1 of (j1, s2) \<Rightarrow>
                   case medianAdjacent_func lt xs k s2 of (k1, s3) \<Rightarrow> median_func lt xs i1 j1 k1 s3)
                else median_func lt xs i j k 0)
             else (j, 0))
      in if swaps = 0 then (j', increasingHint)
         else if swaps = 12 then (j', decreasingHint)
         else (j', unknownHint))"

text \<open>
  \<open>reverseRange_func\<close>:
  \<^verbatim>\<open>i := a; j := b - 1
  for i < j { data.Swap(i, j); i++; j-- }\<close>
\<close>

function reverseRange_loop :: "'a list \<Rightarrow> nat \<Rightarrow> nat \<Rightarrow> 'a list" where
  "reverseRange_loop xs i j = (if i < j then reverseRange_loop (swap xs i j) (i + 1) (j - 1) else xs)"
  by pat_completeness auto
termination
  by (relation "measure (\<lambda>(xs, i, j). j - i)") auto

declare reverseRange_loop.simps [simp del]

definition reverseRange_func :: "'a list \<Rightarrow> nat \<Rightarrow> nat \<Rightarrow> 'a list" where
  "reverseRange_func xs a b = reverseRange_loop xs a (b - 1)"

text \<open>
  \<open>pdqsort_func(data, a, b, limit)\<close>, with \<open>maxInsertion = 12\<close>. The first argument
  bounds the number of nested calls and loop rounds; \<open>None\<close> says that the bound was
  too small. \<open>wasBalanced\<close> and \<open>wasPartitioned\<close> start as \<open>true\<close> in every call.
  \<^verbatim>\<open>for {
      length := b - a
      if length <= maxInsertion { insertionSort_func(data, a, b); return }
      if limit == 0 { heapSort_func(data, a, b); return }
      if !wasBalanced { breakPatterns_func(data, a, b); limit-- }
      pivot, hint := choosePivot_func(data, a, b)
      if hint == decreasingHint {
          reverseRange_func(data, a, b)
          pivot = (b - 1) - (pivot - a)
          hint = increasingHint
      }
      if wasBalanced && wasPartitioned && hint == increasingHint {
          if partialInsertionSort_func(data, a, b) { return }
      }
      if a > 0 && !data.Less(a-1, pivot) {
          mid := partitionEqual_func(data, a, b, pivot)
          a = mid
          continue
      }
      mid, alreadyPartitioned := partition_func(data, a, b, pivot)
      wasPartitioned = alreadyPartitioned
      leftLen, rightLen := mid-a, b-mid
      balanceThreshold := length / 8
      if leftLen < rightLen {
          wasBalanced = leftLen >= balanceThreshold
          pdqsort_func(data, a, mid, limit)
          a = mid + 1
      } else {
          wasBalanced = rightLen >= balanceThreshold
          pdqsort_func(data, mid+1, b, limit)
          b = mid
      }
  }\<close>
\<close>

primrec pdqsort_func ::
  "nat \<Rightarrow> ('a \<Rightarrow> 'a \<Rightarrow> bool) \<Rightarrow> 'a list \<Rightarrow> nat \<Rightarrow> nat \<Rightarrow> nat \<Rightarrow> bool \<Rightarrow> bool \<Rightarrow> 'a list option" where
  "pdqsort_func 0 lt xs a b limit wasBalanced wasPartitioned = None"
| "pdqsort_func (Suc fuel) lt xs a b limit wasBalanced wasPartitioned =
     (let length = b - a
      in if length \<le> 12 then Some (insertionSort_func lt xs a b)
         else if limit = 0 then Some (heapSort_func lt xs a b)
         else
           let xs1 = (if \<not> wasBalanced then breakPatterns_func xs a b else xs);
               limit1 = (if \<not> wasBalanced then limit - 1 else limit);
               (pivot0, hint0) = choosePivot_func lt xs1 a b;
               xs2 = (if hint0 = decreasingHint then reverseRange_func xs1 a b else xs1);
               pivot = (if hint0 = decreasingHint then (b - 1) - (pivot0 - a) else pivot0);
               hint = (if hint0 = decreasingHint then increasingHint else hint0);
               (xs3, sorted) =
                 (if wasBalanced \<and> wasPartitioned \<and> hint = increasingHint
                  then partialInsertionSort_func lt xs2 a b else (xs2, False))
           in if sorted then Some xs3
              else if 0 < a \<and> \<not> lt (xs3 ! (a - 1)) (xs3 ! pivot) then
                (case partitionEqual_func lt xs3 a b pivot of (xs4, mid) \<Rightarrow>
                   pdqsort_func fuel lt xs4 mid b limit1 wasBalanced wasPartitioned)
              else
                (case partition_func lt xs3 a b pivot of (xs4, mid, alreadyPartitioned) \<Rightarrow>
                   let leftLen = mid - a; rightLen = b - mid; balanceThreshold = length div 8
                   in if leftLen < rightLen then
                        (case pdqsort_func fuel lt xs4 a mid limit1 True True of
                           None \<Rightarrow> None
                         | Some xs5 \<Rightarrow>
                             pdqsort_func fuel lt xs5 (mid + 1) b limit1
                               (balanceThreshold \<le> leftLen) alreadyPartitioned)
                      else
                        (case pdqsort_func fuel lt xs4 (mid + 1) b limit1 True True of
                           None \<Rightarrow> None
                         | Some xs5 \<Rightarrow>
                             pdqsort_func fuel lt xs5 a mid limit1
                               (balanceThreshold \<le> rightLen) alreadyPartitioned)))"

text \<open>
  \<^verbatim>\<open>length := rv.Len()
  limit := bits.Len(uint(length))
  pdqsort_func(lessSwap{less, swap}, 0, length, limit)\<close>
\<close>

definition Slice_pdqsort :: "('a \<Rightarrow> 'a \<Rightarrow> bool) \<Rightarrow> 'a list \<Rightarrow> 'a list option" where
  "Slice_pdqsort lt xs =
     pdqsort_func (Suc (length xs)) lt xs 0 (length xs) (bits_Len (length xs)) True True"

definition goSort :: "'a sorter" where
  "goSort lt xs = (case Slice_pdqsort lt xs of Some ys \<Rightarrow> ys | None \<Rightarrow> xs)"

section \<open>Remote artifact publisher\<close>

text \<open>
  \<open>json.Marshal(data)\<close> for a slice of articles: a nil slice encodes as \<open>null\<close>, any
  other slice as an array of objects, the fields of an object in the order of the
  struct's declaration under the names of the \<open>json\<close> tags. An article holds strings
  only, so \<open>json.Marshal\<close> returns no error.
\<close>

definition dq :: string where
  "dq = [CHR 0x22]"

definition jsonMember :: "lib \<Rightarrow> string \<Rightarrow> string \<Rightarrow> string" where
  "jsonMember l name v = dq @ name @ dq @ '':'' @ json_string l v"

fun joinWith :: "string \<Rightarrow> string list \<Rightarrow> string" where
  "joinWith sep [] = []"
| "joinWith sep [x] = x"
| "joinWith sep (x # y # ys) = x @ sep @ joinWith sep (y # ys)"

definition json_Article :: "lib \<Rightarrow> Article \<Rightarrow> string" where
  "json_Article l a =
     ''{'' @ joinWith '','' [jsonMember l ''domainName'' (DomainName a), jsonMember l ''name'' (Name a),
        jsonMember l ''title'' (Title a), jsonMember l ''link'' (Link a), jsonMember l ''date'' (Date a)] @ ''}''"

definition cos_json_Article :: "lib \<Rightarrow> cos_Article \<Rightarrow> string" where
  "cos_json_Article l a =
     ''{'' @ joinWith '','' [jsonMember l ''name'' (cos_Name a), jsonMember l ''title'' (cos_Title a),
        jsonMember l ''link'' (cos_Link a), jsonMember l ''date'' (cos_Date a)] @ ''}''"

definition json_Marshal :: "('a \<Rightarrow> string) \<Rightarrow> 'a slice \<Rightarrow> string" where
  "json_Marshal enc data =
     (case data of
        NilSlice \<Rightarrow> ''null''
      | Slice xs \<Rightarrow> ''['' @ joinWith '','' (map enc xs) @ '']'')"

text \<open>
  \<open>saveToGitHub\<close>: the error it returns is \<open>None\<close> for \<open>nil\<close>.
  \<^verbatim>\<open>jsonData, err := json.Marshal(data)
  filePath := "api/rss_data.json"
  file, _, resp, err := client.Repositories.GetContents(...)
  if err != nil && resp.StatusCode == http.StatusNotFound {
      _, _, err := client.Repositories.CreateFile(..., Content: jsonData)
      if err != nil { return fmt.Errorf("error creating rss_data.json in GitHub: %v", err) }
      return nil
  } else if err != nil {
      return fmt.Errorf("error checking rss_data.json in GitHub: %v", err)
  }
  _, _, err = client.Repositories.UpdateFile(..., Content: jsonData, SHA: *file.SHA)
  if err != nil { return fmt.Errorf("error updating rss_data.json in GitHub: %v", err) }
  return nil\<close>
\<close>

definition saveToGitHub :: "lib \<Rightarrow> github_fault env \<Rightarrow> Article slice \<Rightarrow> world \<Rightarrow> panic + (string option \<times> world)" where
  "saveToGitHub l e data w =
     (let jsonData = json_Marshal (json_Article l) data;
          filePath = ''api/rss_data.json''
      in case GetContents e filePath w of
           (GetErr None, w1) \<Rightarrow> Inl NilPointerDereference
         | (GetErr (Some code), w1) \<Rightarrow>
             if code = StatusNotFound then
               (case CreateFile e filePath jsonData w1 of
                  (True, w2) \<Rightarrow> Inr (None, w2)
                | (False, w2) \<Rightarrow> Inr (Some ''error creating rss_data.json in GitHub'', w2))
             else Inr (Some ''error checking rss_data.json in GitHub'', w1)
         | (GetFile content sha, w1) \<Rightarrow>
             (case UpdateFile e filePath jsonData sha w1 of
                (True, w2) \<Rightarrow> Inr (None, w2)
              | (False, w2) \<Rightarrow> Inr (Some ''error updating rss_data.json in GitHub'', w2)))"

text \<open>
  \<open>saveToCOS\<close>:
  \<^verbatim>\<open>jsonData, err := json.Marshal(data)
  _, err = client.Object.Put(context.Background(), "rss/rss_data.json", bytes.NewReader(jsonData), nil)
  if err != nil { return fmt.Errorf("error saving data to COS: %v", err) }
  return nil\<close>
\<close>

definition saveToCOS :: "lib \<Rightarrow> cos_fault env \<Rightarrow> cos_Article slice \<Rightarrow> world \<Rightarrow> string option \<times> world" where
  "saveToCOS l e data w =
     (let jsonData = json_Marshal (cos_json_Article l) data
      in case Object_Put e ''rss/rss_data.json'' jsonData w of
           (True, w1) \<Rightarrow> (None, w1)
         | (False, w1) \<Rightarrow> (Some ''error saving data to COS'', w1))"

section \<open>Sample answers of the libraries and of the network\<close>

text \<open>
  The examples below run the programs in a world whose libraries answer as Go's do on
  the strings of the examples. The tables hold those answers; outside the tables the
  sample answers with an error.
\<close>

definition nsPerDay :: int where
  "nsPerDay = 86400000000000"

definition nsPerHour :: int where
  "nsPerHour = 3600000000000"

text \<open>Midnight UTC of a day, counted from January 1 of year 1.\<close>

definition day :: "int \<Rightarrow> int" where
  "day n = n * nsPerDay"

definition sample_times :: "((string \<times> string) \<times> Time) list" where
  "sample_times =
     [((RFC3339, ''2024-07-26T08:00:00Z''), Time (day 739092 + 8 * nsPerHour) 0),
      ((RFC3339Nano, ''2024-07-26T08:00:00Z''), Time (day 739092 + 8 * nsPerHour) 0),
      ((RFC3339, ''2024-07-01T10:30:00+08:00''), Time (day 739067 + 2 * nsPerHour + 30 * 60000000000) 28800),
      ((RFC3339Nano, ''2024-07-01T10:30:00+08:00''), Time (day 739067 + 2 * nsPerHour + 30 * 60000000000) 28800),
      ((RFC1123Z, ''Fri, 05 Jan 2024 09:00:00 +0000''), Time (day 738889 + 9 * nsPerHour) 0),
      ((displayLayout, ''July 26, 2024''), Time (day 739092) 0),
      ((displayLayout, ''July 1, 2024''), Time (day 739067) 0),
      ((displayLayout, ''January 5, 2024''), Time (day 738889) 0),
      ((displayLayout, ''August 15, 2024''), Time (day 739112) 0),
      ((displayLayout, ''January 1, 0001''), Time (day 0) 0)]"

definition sample_time_Parse :: "string \<Rightarrow> string \<Rightarrow> string + Time" where
  "sample_time_Parse layout v =
     (case map_of sample_times (layout, v) of
        Some t \<Rightarrow> Inr t
      | None \<Rightarrow> Inl (''parsing time '' @ dq @ v @ dq @ '': cannot parse''))"

definition sample_days :: "(int \<times> string) list" where
  "sample_days =
     [(739092, ''July 26, 2024''), (739067, ''July 1, 2024''), (738889, ''January 5, 2024''),
      (739112, ''August 15, 2024''), (0, ''January 1, 0001'')]"

text \<open>
  The clock of the sample reads 04:00 UTC on August 15, 2024, a Thursday, and a
  nanosecond more at each reading: 12:00 in Beijing.
\<close>

definition sample_time_Format :: "Time \<Rightarrow> string \<Rightarrow> string" where
  "sample_time_Format t layout =
     (let local = instant t + zone t * 1000000000
      in if layout = displayLayout then
           (case map_of sample_days (local div nsPerDay) of Some s \<Rightarrow> s | None \<Rightarrow> [])
         else if layout = logLayout \<and> local div 60000000000 = 739112 * 1440 + 720
           then ''Thu Aug 15 12:00:2024''
         else [])"

definition sample_Now :: "nat \<Rightarrow> Time" where
  "sample_Now n = Time (day 739112 + 4 * nsPerHour + int n) 0"

definition sample_urls :: "(string \<times> (string + URL)) list" where
  "sample_urls =
     [([], Inr \<lparr>Scheme = [], Host = []\<rparr>),
      (''example.com/path'', Inr \<lparr>Scheme = [], Host = []\<rparr>),
      (''https://blog.example.com/'', Inr \<lparr>Scheme = ''https'', Host = ''blog.example.com''\<rparr>),
      (''http://example.org:8080/feed'', Inr \<lparr>Scheme = ''http'', Host = ''example.org:8080''\<rparr>),
      (''://example.com'', Inl (''parse '' @ dq @ ''://example.com'' @ dq @ '': missing protocol scheme''))]"

definition sample_url_Parse :: "string \<Rightarrow> string + URL" where
  "sample_url_Parse s =
     (case map_of sample_urls s of Some r \<Rightarrow> r | None \<Rightarrow> Inl ''not in the sample'')"

text \<open>A feed as an Atom document.\<close>

definition element :: "string \<Rightarrow> string \<Rightarrow> string" where
  "element name body = (if body = [] then [] else ''<'' @ name @ ''>'' @ body @ ''</'' @ name @ ''>'')"

definition atomLink :: "string \<Rightarrow> string" where
  "atomLink href = ''<link href='' @ dq @ href @ dq @ ''/>''"

definition atomEntry :: "Item \<Rightarrow> string" where
  "atomEntry i =
     ''<entry>'' @ element ''title'' (ItemTitle i) @ atomLink (ItemLink i)
       @ element ''published'' (Published i) @ element ''updated'' (Updated i) @ ''</entry>''"

definition atomBody :: "Feed \<Rightarrow> string" where
  "atomBody f =
     ''<feed xmlns='' @ dq @ ''http://www.w3.org/2005/Atom'' @ dq @ ''>''
       @ element ''title'' (FeedTitle f) @ atomLink (FeedLink f)
       @ concat (map atomEntry (Items f)) @ ''</feed>''"

text \<open>
  The feeds of the sample. Thirteen blogs \<open>a\<close> to \<open>m\<close> with one entry each: the
  entry of the first twelve was published on July 1, 2024, the entry of blog \<open>m\<close> on
  July 26, 2024.
\<close>

definition post :: "string \<Rightarrow> string \<Rightarrow> Item" where
  "post published updated =
     \<lparr>ItemTitle = ''Post'', ItemLink = ''https://blog.example.com/p'',
      Published = published, Updated = updated\<rparr>"

definition blog :: "char \<Rightarrow> Feed" where
  "blog c =
     \<lparr>FeedTitle = ''Blog '' @ [c], FeedLink = ''https://blog.example.com/'',
      Items = [post (if c = CHR ''m'' then ''2024-07-26T08:00:00Z'' else ''2024-07-01T10:30:00+08:00'') []]\<rparr>"

definition blogURL :: "char \<Rightarrow> string" where
  "blogURL c = ''https://blog.example.com/'' @ [c] @ ''.xml''"

definition blogs :: string where
  "blogs = ''abcdefghijklm''"

definition staleFeed :: Feed where
  "staleFeed = \<lparr>FeedTitle = ''Stale'', FeedLink = ''https://blog.example.com/'',
      Items = [post ''yesterday'' ''2024-07-26T08:00:00Z'']\<rparr>"

definition undatedFeed :: Feed where
  "undatedFeed = \<lparr>FeedTitle = ''Undated'', FeedLink = ''https://blog.example.com/'',
      Items = [post [] []]\<rparr>"

definition emptyFeed :: Feed where
  "emptyFeed = \<lparr>FeedTitle = ''Empty'', FeedLink = ''://example.com'', Items = []\<rparr>"

definition quietFeed :: Feed where
  "quietFeed = \<lparr>FeedTitle = ''Quiet'', FeedLink = ''https://blog.example.com/'', Items = []\<rparr>"

definition nolinkFeed :: Feed where
  "nolinkFeed = \<lparr>FeedTitle = ''No link'', FeedLink = [],
      Items = [post ''Fri, 05 Jan 2024 09:00:00 +0000'' []]\<rparr>"

definition badlinkFeed :: Feed where
  "badlinkFeed = \<lparr>FeedTitle = ''Bad link'', FeedLink = ''://example.com'',
      Items = [post ''2024-07-26T08:00:00Z'' []]\<rparr>"

definition portedFeed :: Feed where
  "portedFeed = \<lparr>FeedTitle = ''Ported'', FeedLink = ''http://example.org:8080/feed'',
      Items = [post ''2024-07-26T08:00:00Z'' []]\<rparr>"

definition sample_feeds :: "(string \<times> Feed) list" where
  "sample_feeds =
     map (\<lambda>c. (blogURL c, blog c)) blogs @
     [(''https://stale.example/atom.xml'', staleFeed),
      (''https://undated.example/atom.xml'', undatedFeed),
      (''https://empty.example/atom.xml'', emptyFeed),
      (''https://quiet.example/atom.xml'', quietFeed),
      (''https://nolink.example/atom.xml'', nolinkFeed),
      (''https://badlink.example/atom.xml'', badlinkFeed),
      (''https://ported.example/atom.xml'', portedFeed)]"

definition sample_Get :: "string \<Rightarrow> string + string" where
  "sample_Get u =
     (case map_of sample_feeds u of
        Some f \<Rightarrow> Inr (atomBody f)
      | None \<Rightarrow> Inl (''Get '' @ dq @ u @ dq @ '': dial tcp: no such host''))"

definition sample_ParseString :: "string \<Rightarrow> string + Feed" where
  "sample_ParseString body =
     (case find (\<lambda>f. atomBody f = body) (map snd sample_feeds) of
        Some f \<Rightarrow> Inr f
      | None \<Rightarrow> Inl ''Failed to detect feed type'')"

text \<open>
  The strings of the sample hold no character that JSON escapes: their encoding is
  the string between double quotes.
\<close>

definition sampleLib :: lib where
  "sampleLib =
     \<lparr>time_Parse = sample_time_Parse, time_Format = sample_time_Format,
      url_Parse = sample_url_Parse, fp_ParseString = sample_ParseString,
      json_string = (\<lambda>s. dq @ s @ dq)\<rparr>"

definition sampleEnv :: "'f env" where
  "sampleEnv = \<lparr>http_Get = sample_Get, time_Now = sample_Now, fault = (\<lambda>n. None)\<rparr>"

section \<open>Claims about the time normalizer\<close>

lemma parseTime_loop_fail:
  "isl (parseTime_loop l fs s) \<longleftrightarrow> (\<forall>f \<in> set fs. isl (time_Parse l f s))"
  by (induction fs) (auto split: sum.splits)

lemma parseTime_loop_fail_text:
  "isl (parseTime_loop l fs s) \<Longrightarrow> parseTime_loop l fs s = Inl (''unable to parse time: '' @ s)"
  by (induction fs) (auto split: sum.splits)

lemma parseTime_loop_first:
  "parseTime_loop l fs s = Inr t \<longleftrightarrow>
     (\<exists>i < length fs. time_Parse l (fs ! i) s = Inr t \<and> (\<forall>j < i. isl (time_Parse l (fs ! j) s)))"
proof (induction fs)
  case Nil
  then show ?case by simp
next
  case (Cons f fs)
  show ?case
  proof (cases "time_Parse l f s")
    case (Inl err)
    have "(\<exists>i < length (f # fs). time_Parse l ((f # fs) ! i) s = Inr t \<and> (\<forall>j < i. isl (time_Parse l ((f # fs) ! j) s)))
      \<longleftrightarrow> (\<exists>i < length fs. time_Parse l (fs ! i) s = Inr t \<and> (\<forall>j < i. isl (time_Parse l (fs ! j) s)))"
      (is "?L \<longleftrightarrow> ?R")
    proof
      assume ?L
      then obtain i where i: "i < length (f # fs)" "time_Parse l ((f # fs) ! i) s = Inr t"
        "\<forall>j < i. isl (time_Parse l ((f # fs) ! j) s)" by blast
      then obtain k where k: "i = Suc k" using Inl by (cases i) auto
      have "\<forall>j < k. isl (time_Parse l (fs ! j) s)"
      proof (intro allI impI)
        fix j assume "j < k"
        then have "Suc j < i" using k by simp
        then show "isl (time_Parse l (fs ! j) s)" using i(3) by fastforce
      qed
      then show ?R using i k by auto
    next
      assume ?R
      then obtain i where i: "i < length fs" "time_Parse l (fs ! i) s = Inr t"
        "\<forall>j < i. isl (time_Parse l (fs ! j) s)" by blast
      have "\<forall>j < Suc i. isl (time_Parse l ((f # fs) ! j) s)"
      proof (intro allI impI)
        fix j assume "j < Suc i"
        then show "isl (time_Parse l ((f # fs) ! j) s)" using i(3) Inl by (cases j) auto
      qed
      then show ?L using i by (intro exI [of _ "Suc i"]) simp
    qed
    then show ?thesis using Cons Inl by simp
  next
    case (Inr t')
    have "(\<exists>i < length (f # fs). time_Parse l ((f # fs) ! i) s = Inr t \<and> (\<forall>j < i. isl (time_Parse l ((f # fs) ! j) s)))
      \<longleftrightarrow> t' = t" (is "?L \<longleftrightarrow> _")
    proof
      assume ?L
      then obtain i where i: "i < length (f # fs)" "time_Parse l ((f # fs) ! i) s = Inr t"
        "\<forall>j < i. isl (time_Parse l ((f # fs) ! j) s)" by blast
      have "i = 0"
      proof (rule ccontr)
        assume "i \<noteq> 0"
        then have "isl (time_Parse l ((f # fs) ! 0) s)" using i(3) by blast
        then show False using Inr by simp
      qed
      then show "t' = t" using i Inr by simp
    next
      assume "t' = t"
      then show ?L using Inr by (intro exI [of _ 0]) simp
    qed
    then show ?thesis using Inr by simp
  qed
qed

text \<open>
  Claim C7. \<open>parseTime\<close> tries the four layouts RFC3339, RFC3339Nano, RFC1123Z, RFC1123
  in this order and returns the result of the first that parses; it fails, with the
  error \<open>unable to parse time: \<close> and the input, exactly when none of the four
  parses. For the empty string: \<open>time.Parse\<close> rejects it under each of the four
  layouts (each starts with a field that needs input), and then so does \<open>parseTime\<close>.
\<close>

theorem parseTime_first_success:
  "formats = [RFC3339, RFC3339Nano, RFC1123Z, RFC1123]
   \<and> (\<forall>t. parseTime l s = Inr t \<longleftrightarrow>
        (\<exists>i < length formats. time_Parse l (formats ! i) s = Inr t
           \<and> (\<forall>j < i. isl (time_Parse l (formats ! j) s))))
   \<and> (isl (parseTime l s) \<longleftrightarrow> (\<forall>f \<in> set formats. isl (time_Parse l f s)))
   \<and> (isl (parseTime l s) \<longrightarrow> parseTime l s = Inl (''unable to parse time: '' @ s))
   \<and> ((\<forall>f \<in> set formats. isl (time_Parse l f [])) \<longrightarrow> isl (parseTime l []))"
  unfolding parseTime_def
  using parseTime_loop_first [of l formats s] parseTime_loop_fail [of l formats]
    parseTime_loop_fail_text [of l formats s]
  by (simp add: formats_def)

lemmas sample_eval = sampleLib_def sample_time_Parse_def sample_times_def RFC3339_def RFC3339Nano_def
  RFC1123Z_def RFC1123_def displayLayout_def formats_def parseTime_def day_def nsPerDay_def nsPerHour_def dq_def

text \<open>
  In the sample, the empty string and \<open>yesterday\<close> fail under every layout, and an
  RFC1123Z date is parsed by the third layout after the first two have failed.
\<close>

theorem parseTime_first_success_witness:
  "parseTime sampleLib [] = Inl ''unable to parse time: ''
   \<and> parseTime sampleLib ''yesterday'' = Inl ''unable to parse time: yesterday''
   \<and> parseTime sampleLib ''Fri, 05 Jan 2024 09:00:00 +0000'' = Inr (Time (day 738889 + 9 * nsPerHour) 0)
   \<and> time_Parse sampleLib (formats ! 2) ''Fri, 05 Jan 2024 09:00:00 +0000'' = Inr (Time (day 738889 + 9 * nsPerHour) 0)
   \<and> isl (time_Parse sampleLib (formats ! 0) ''Fri, 05 Jan 2024 09:00:00 +0000'')
   \<and> isl (time_Parse sampleLib (formats ! 1) ''Fri, 05 Jan 2024 09:00:00 +0000'')"
proof -
  have e: "\<forall>f \<in> set formats. isl (time_Parse sampleLib f [])"
    by (simp add: sample_eval)
  have y: "\<forall>f \<in> set formats. isl (time_Parse sampleLib f ''yesterday'')"
    by (simp add: sample_eval)
  have f: "time_Parse sampleLib (formats ! 2) ''Fri, 05 Jan 2024 09:00:00 +0000'' = Inr (Time (day 738889 + 9 * nsPerHour) 0)"
    "isl (time_Parse sampleLib (formats ! 0) ''Fri, 05 Jan 2024 09:00:00 +0000'')"
    "isl (time_Parse sampleLib (formats ! 1) ''Fri, 05 Jan 2024 09:00:00 +0000'')"
    by (simp_all add: sample_eval)
  have lt: "\<forall>j < 2. isl (time_Parse sampleLib (formats ! j) ''Fri, 05 Jan 2024 09:00:00 +0000'')"
    using f(2,3) by (auto simp: less_2_cases_iff)
  have len: "2 < length formats" by (simp add: formats_def)
  note a = parseTime_first_success [of sampleLib "[]"]
  note b = parseTime_first_success [of sampleLib "''yesterday''"]
  note c = parseTime_first_success [of sampleLib "''Fri, 05 Jan 2024 09:00:00 +0000''"]
  have 1: "parseTime sampleLib [] = Inl ''unable to parse time: ''" using a e by simp
  have 2: "parseTime sampleLib ''yesterday'' = Inl ''unable to parse time: yesterday''" using b y by simp
  have 3: "parseTime sampleLib ''Fri, 05 Jan 2024 09:00:00 +0000'' = Inr (Time (day 738889 + 9 * nsPerHour) 0)"
    using c f(1) lt len by blast
  show ?thesis using 1 2 3 f by blast
qed

section \<open>Running the sample\<close>

text \<open>
  A body of printable ASCII characters passes the sanitizer unchanged; the bodies of
  the sample are such, and differ from each other, so that the sample's parser reads
  each feed back from its body.
\<close>

declare cleanXMLContent.simps [simp del]

definition plain :: "char \<Rightarrow> bool" where
  "plain c = (0x20 \<le> byte c \<and> byte c < 0x7F)"

lemma clean_plain: "list_all plain s \<Longrightarrow> cleanXMLContent s = s"
proof (induction s)
  case Nil
  then show ?case by (simp add: cleanXMLContent.simps)
next
  case (Cons c s)
  then have p: "0x20 \<le> byte c" "byte c < 0x7F" by (simp_all add: plain_def)
  then have d: "DecodeRuneInString (c # s) = (byte c, 1)"
    by (simp add: DecodeRuneInString.simps seqLen_def Let_def)
  have "\<not> illegal (byte c)" using p by (simp add: illegal_def)
  then show ?case using Cons d by (simp add: Let_def cleanXMLContent.simps)
qed

definition sample_bodies :: "string list" where
  "sample_bodies = map (atomBody \<circ> snd) sample_feeds"

lemmas feeds_eval = sample_feeds_def blogs_def blogURL_def blog_def post_def staleFeed_def
  undatedFeed_def emptyFeed_def quietFeed_def nolinkFeed_def badlinkFeed_def portedFeed_def

lemma sample_bodies_plain: "list_all (list_all plain) sample_bodies"
  by (simp add: sample_bodies_def feeds_eval atomBody_def atomEntry_def atomLink_def element_def dq_def plain_def byte_def)

lemma sample_bodies_distinct: "distinct sample_bodies"
  by (simp add: sample_bodies_def feeds_eval atomBody_def atomEntry_def atomLink_def element_def dq_def)


lemma sample_fetch:
  assumes "map_of sample_feeds u = Some f"
  shows "http_Get sampleEnv u = Inr (atomBody f)"
    and "fp_ParseString sampleLib (cleanXMLContent (atomBody f)) = Inr f"
proof -
  show "http_Get sampleEnv u = Inr (atomBody f)"
    using assms by (simp add: sampleEnv_def sample_Get_def)
  have mem: "f \<in> set (map snd sample_feeds)"
    using assms by (metis map_of_SomeD set_zip_rightD zip_map_fst_snd)
  have pl: "list_all plain (atomBody f)"
    using sample_bodies_plain mem by (auto simp: sample_bodies_def list_all_iff)
  have inj: "inj_on atomBody (set (map snd sample_feeds))"
    using sample_bodies_distinct unfolding sample_bodies_def
    by (metis distinct_map map_map)
  have "find (\<lambda>g. atomBody g = atomBody f) (map snd sample_feeds) = Some f"
  proof (cases "find (\<lambda>g. atomBody g = atomBody f) (map snd sample_feeds)")
    case None
    then show ?thesis using mem by (auto simp: find_None_iff)
  next
    case (Some g)
    then have "atomBody g = atomBody f" "g \<in> set (map snd sample_feeds)"
      by (auto simp: find_Some_iff)
    then have "g = f" using inj mem by (auto dest: inj_onD)
    then show ?thesis using Some by simp
  qed
  then show "fp_ParseString sampleLib (cleanXMLContent (atomBody f)) = Inr f"
    by (simp add: clean_plain [OF pl] sampleLib_def sample_ParseString_def)
qed

lemma sample_down:
  "map_of sample_feeds u = None \<Longrightarrow>
     http_Get sampleEnv u = Inl (''Get '' @ dq @ u @ dq @ '': dial tcp: no such host'')"
  by (simp add: sampleEnv_def sample_Get_def)

lemmas run_eval = fetchRSS_def fetchRSS_feed_def andThen_def feedDomain_def extractDomain_def
  articleTime_def logStage_def logLine_def getBeijingTime_def Now_def In_def logError_def logMessage_def
  GetContents_def CreateFile_def UpdateFile_def StatusNotFound_def formatTime_def Hostname_def
  stripBrackets_def validOptionalPort_def isDigit_def byte_def
  sample_url_Parse_def sample_urls_def sample_time_Format_def sample_days_def
  sample_Now_def logLayout_def blankLine_def emptyWorld_def

section \<open>Claims about domain extraction\<close>

lemma logStage_appends:
  assumes "fault e (calls w) = None" and "fault e (Suc (calls w)) = None"
  shows "\<exists>w'. logStage l e stage subject err w = Inr w'
     \<and> files w' ''api/error.log''
         = Some (contentOf w ''api/error.log'' @ fst (logLine l e stage subject err w) @ blankLine)
     \<and> (\<forall>p. p \<noteq> ''api/error.log'' \<longrightarrow> files w' p = files w p)
     \<and> calls w' = Suc (Suc (calls w)) \<and> ticks w' = Suc (ticks w)"
proof -
  obtain line w1 where ll: "logLine l e stage subject err w = (line, w1)" by (cases "logLine l e stage subject err w")
  then have w1: "w1 = w\<lparr>ticks := Suc (ticks w)\<rparr>"
    by (auto simp: logLine_def getBeijingTime_def Now_def split: prod.splits)
  have f: "fault e (calls w1) = None" "fault e (Suc (calls w1)) = None"
    using assms w1 by simp_all
  from logMessage_appends [OF f, of line "''error.log''"]
  obtain w' where w': "logMessage e line ''error.log'' w1 = Inr w'"
    "files w' ''api/error.log'' = Some (contentOf w1 ''api/error.log'' @ line @ blankLine)"
    "\<forall>p. p \<noteq> ''api/error.log'' \<longrightarrow> files w' p = files w1 p"
    "calls w' = Suc (Suc (calls w1))" "ticks w' = ticks w1"
    by auto
  have "logStage l e stage subject err w = Inr w'"
    using ll w'(1) by (simp add: logStage_def logError_def)
  moreover have "contentOf w1 ''api/error.log'' = contentOf w ''api/error.log''"
    using w1 by (simp add: contentOf_def)
  ultimately show ?thesis using w' ll w1 by auto
qed

lemma extractDomain_Inr:
  "url_Parse l s = Inr u \<Longrightarrow>
     extractDomain l s = Inr ((if Scheme u = [] then ''https'' else Scheme u) @ ''://'' @ Hostname u)"
  by (simp add: extractDomain_def Let_def)

lemma extractDomain_Inl: "url_Parse l s = Inl err \<Longrightarrow> extractDomain l s = Inl err"
  by (simp add: extractDomain_def)

lemma extractDomain_not_unknown: "extractDomain l s \<noteq> Inr ''unknown''"
proof
  assume a: "extractDomain l s = Inr ''unknown''"
  then obtain u where u: "url_Parse l s = Inr u"
    by (cases "url_Parse l s") (auto simp: extractDomain_def)
  have "CHR '':'' \<in> set ((if Scheme u = [] then ''https'' else Scheme u) @ ''://'' @ Hostname u)"
    by simp
  moreover have "CHR '':'' \<notin> set ''unknown''" by simp
  ultimately show False using a extractDomain_Inr [OF u] by (metis sum.inject(2))
qed

text \<open>
  Claim C9, Git-hosted variant (the other variant extracts no domain). The feed's link
  goes through \<open>url.Parse\<close>. When it parses, the domain is the scheme, \<open>https\<close> when
  the link has none, then \<open>://\<close> and the host name (the host without its port), and
  nothing is logged. When it does not parse, the domain is \<open>unknown\<close> and, the store
  answering, the log grows by exactly one \<open>Extract domain error\<close> entry. The article
  built for the feed carries that domain.
\<close>

theorem feedDomain_unknown_on_parse_failure:
  assumes "fault e (calls w) = None" and "fault e (Suc (calls w)) = None"
  shows "(\<forall>u. url_Parse l (FeedLink feed) = Inr u \<longrightarrow>
            feedDomain l e feed w
              = Inr ((if Scheme u = [] then ''https'' else Scheme u) @ ''://'' @ Hostname u, w))
     \<and> (\<forall>err. url_Parse l (FeedLink feed) = Inl err \<longrightarrow>
            (\<exists>w'. feedDomain l e feed w = Inr (''unknown'', w')
               \<and> files w' ''api/error.log''
                   = Some (contentOf w ''api/error.log''
                       @ fst (logLine l e ''Extract domain error'' (FeedLink feed) err w) @ blankLine)))
     \<and> (\<forall>body item others d w1 t w2.
            http_Get e feedURL = Inr body \<and> fp_ParseString l (cleanXMLContent body) = Inr feed
            \<and> Items feed = item # others \<and> feedDomain l e feed w = Inr (d, w1)
            \<and> articleTime l e item w1 = Inr (t, w2) \<longrightarrow>
            fetchRSS_feed l e feedURL (w, articles)
              = Inr (w2, append_slice articles
                  \<lparr>DomainName = d, Name = FeedTitle feed, Title = ItemTitle item,
                   Link = ItemLink item, Date = formatTime l t\<rparr>))"
proof (intro conjI allI impI)
  fix u assume "url_Parse l (FeedLink feed) = Inr u"
  then show "feedDomain l e feed w
      = Inr ((if Scheme u = [] then ''https'' else Scheme u) @ ''://'' @ Hostname u, w)"
    by (simp add: feedDomain_def extractDomain_Inr Let_def)
next
  fix err assume p: "url_Parse l (FeedLink feed) = Inl err"
  from logStage_appends [OF assms, of l "''Extract domain error''" "FeedLink feed" err]
  obtain w' where w': "logStage l e ''Extract domain error'' (FeedLink feed) err w = Inr w'"
    "files w' ''api/error.log''
      = Some (contentOf w ''api/error.log''
          @ fst (logLine l e ''Extract domain error'' (FeedLink feed) err w) @ blankLine)"
    by blast
  have "feedDomain l e feed w = Inr (''unknown'', w')"
    using p w'(1) by (simp add: feedDomain_def extractDomain_Inl andThen_def Let_def)
  then show "\<exists>w'. feedDomain l e feed w = Inr (''unknown'', w')
     \<and> files w' ''api/error.log''
         = Some (contentOf w ''api/error.log''
             @ fst (logLine l e ''Extract domain error'' (FeedLink feed) err w) @ blankLine)"
    using w'(2) by blast
next
  fix body item others d w1 t w2
  assume "http_Get e feedURL = Inr body \<and> fp_ParseString l (cleanXMLContent body) = Inr feed
            \<and> Items feed = item # others \<and> feedDomain l e feed w = Inr (d, w1)
            \<and> articleTime l e item w1 = Inr (t, w2)"
  then show "fetchRSS_feed l e feedURL (w, articles)
              = Inr (w2, append_slice articles
                  \<lparr>DomainName = d, Name = FeedTitle feed, Title = ItemTitle item,
                   Link = ItemLink item, Date = formatTime l t\<rparr>)"
    by (simp add: fetchRSS_feed_def andThen_def)
qed

text \<open>
  Claim C10. Whatever \<open>url.Parse\<close> accepts, \<open>extractDomain\<close> accepts: it returns the
  scheme (or \<open>https\<close>), \<open>://\<close> and the host name, also when the host name is empty,
  which gives \<open>https://\<close> for a link parsed with no scheme and no host. It fails
  only with the error of \<open>url.Parse\<close>, and \<open>feedDomain\<close> gives \<open>unknown\<close> only then.
\<close>

theorem extractDomain_accepts_what_url_Parse_accepts:
  "(\<forall>u. url_Parse l s = Inr u \<longrightarrow>
      extractDomain l s = Inr ((if Scheme u = [] then ''https'' else Scheme u) @ ''://'' @ Hostname u))
   \<and> (\<forall>err. url_Parse l s = Inl err \<longrightarrow> extractDomain l s = Inl err)
   \<and> (url_Parse l s = Inr \<lparr>Scheme = [], Host = []\<rparr> \<longrightarrow> extractDomain l s = Inr ''https://'')
   \<and> (\<forall>w'. feedDomain l e feed w = Inr (''unknown'', w') \<longrightarrow> isl (url_Parse l (FeedLink feed)))"
proof (intro conjI allI impI)
  fix u assume "url_Parse l s = Inr u"
  then show "extractDomain l s = Inr ((if Scheme u = [] then ''https'' else Scheme u) @ ''://'' @ Hostname u)"
    by (rule extractDomain_Inr)
next
  fix err assume "url_Parse l s = Inl err"
  then show "extractDomain l s = Inl err" by (rule extractDomain_Inl)
next
  assume "url_Parse l s = Inr \<lparr>Scheme = [], Host = []\<rparr>"
  then show "extractDomain l s = Inr ''https://''"
    by (simp add: extractDomain_Inr Hostname_def stripBrackets_def)
next
  fix w' assume a: "feedDomain l e feed w = Inr (''unknown'', w')"
  show "isl (url_Parse l (FeedLink feed))"
  proof (cases "url_Parse l (FeedLink feed)")
    case (Inl err)
    then show ?thesis by simp
  next
    case (Inr u)
    then have "extractDomain l (FeedLink feed) = Inr ''unknown''"
      using a by (simp add: feedDomain_def extractDomain_Inr Let_def)
    then show ?thesis using extractDomain_not_unknown by blast
  qed
qed


lemma sample_at:
  "map_of sample_feeds ''https://stale.example/atom.xml'' = Some staleFeed"
  "map_of sample_feeds ''https://undated.example/atom.xml'' = Some undatedFeed"
  "map_of sample_feeds ''https://empty.example/atom.xml'' = Some emptyFeed"
  "map_of sample_feeds ''https://quiet.example/atom.xml'' = Some quietFeed"
  "map_of sample_feeds ''https://nolink.example/atom.xml'' = Some nolinkFeed"
  "map_of sample_feeds ''https://badlink.example/atom.xml'' = Some badlinkFeed"
  "map_of sample_feeds ''https://ported.example/atom.xml'' = Some portedFeed"
  "map_of sample_feeds ''https://down.example/atom.xml'' = None"
  by (simp_all add: sample_feeds_def blogs_def blogURL_def)

lemmas sample_run = run_eval sample_eval sampleEnv_def feeds_eval

definition domainErrorLine :: string where
  "domainErrorLine = ''[Thu Aug 15 12:00:2024] [Extract domain error] ://example.com: parse ''
     @ dq @ ''://example.com'' @ dq @ '': missing protocol scheme''"

text \<open>
  In the sample, the link \<open>://example.com\<close> of the feed \<open>Bad link\<close> does not parse:
  its article has the domain \<open>unknown\<close> and the log holds one entry. The link of
  the feed \<open>Ported\<close> parses: port 8080 is cut from the host.
\<close>

theorem feedDomain_unknown_on_parse_failure_witness:
  "(\<exists>w'. feedDomain sampleLib sampleEnv badlinkFeed emptyWorld = Inr (''unknown'', w')
       \<and> files w' ''api/error.log'' = Some (domainErrorLine @ blankLine))
   \<and> fetchRSS_feed sampleLib sampleEnv ''https://badlink.example/atom.xml'' (emptyWorld, NilSlice)
       = Inr (\<lparr>files = [''api/error.log'' \<mapsto> domainErrorLine @ blankLine], calls = 2, ticks = 1\<rparr>,
              Slice [\<lparr>DomainName = ''unknown'', Name = ''Bad link'', Title = ''Post'',
                      Link = ''https://blog.example.com/p'', Date = ''July 26, 2024''\<rparr>])
   \<and> fetchRSS_feed sampleLib sampleEnv ''https://ported.example/atom.xml'' (emptyWorld, NilSlice)
       = Inr (emptyWorld,
              Slice [\<lparr>DomainName = ''http://example.org'', Name = ''Ported'', Title = ''Post'',
                      Link = ''https://blog.example.com/p'', Date = ''July 26, 2024''\<rparr>])"
proof -
  have f: "fault (sampleEnv :: github_fault env) (calls emptyWorld) = None"
    "fault (sampleEnv :: github_fault env) (Suc (calls emptyWorld)) = None"
    by (simp_all add: sampleEnv_def)
  note t = feedDomain_unknown_on_parse_failure [OF f, of sampleLib]
  have bad: "url_Parse sampleLib (FeedLink badlinkFeed)
      = Inl (''parse '' @ dq @ ''://example.com'' @ dq @ '': missing protocol scheme'')"
    by (simp add: sample_run)
  have line: "fst (logLine sampleLib sampleEnv ''Extract domain error'' (FeedLink badlinkFeed)
        (''parse '' @ dq @ ''://example.com'' @ dq @ '': missing protocol scheme'') emptyWorld)
      = domainErrorLine"
    by (simp add: sample_run domainErrorLine_def)
  have c: "contentOf emptyWorld ''api/error.log'' = []"
    by (simp add: contentOf_def emptyWorld_def)
  have 1: "\<exists>w'. feedDomain sampleLib sampleEnv badlinkFeed emptyWorld = Inr (''unknown'', w')
       \<and> files w' ''api/error.log'' = Some (domainErrorLine @ blankLine)"
    using t [of badlinkFeed] bad line c by (metis append_Nil)
  have 2: "fetchRSS_feed sampleLib sampleEnv ''https://badlink.example/atom.xml'' (emptyWorld, NilSlice)
       = Inr (\<lparr>files = [''api/error.log'' \<mapsto> domainErrorLine @ blankLine], calls = 2, ticks = 1\<rparr>,
              Slice [\<lparr>DomainName = ''unknown'', Name = ''Bad link'', Title = ''Post'',
                      Link = ''https://blog.example.com/p'', Date = ''July 26, 2024''\<rparr>])"
    by (simp add: fetchRSS_feed_def sample_fetch [OF sample_at(6)])
       (simp add: sample_run domainErrorLine_def)
  have 3: "fetchRSS_feed sampleLib sampleEnv ''https://ported.example/atom.xml'' (emptyWorld, NilSlice)
       = Inr (emptyWorld,
              Slice [\<lparr>DomainName = ''http://example.org'', Name = ''Ported'', Title = ''Post'',
                      Link = ''https://blog.example.com/p'', Date = ''July 26, 2024''\<rparr>])"
    by (simp add: fetchRSS_feed_def sample_fetch [OF sample_at(7)])
       (simp add: sample_run)
  show ?thesis using 1 2 3 by blast
qed

text \<open>
  In the sample, \<open>url.Parse\<close> accepts the empty string and \<open>example.com/path\<close> with
  no scheme and no host, as Go's does; the feed \<open>No link\<close> is published under the
  domain \<open>https://\<close>.
\<close>

theorem extractDomain_accepts_what_url_Parse_accepts_witness:
  "url_Parse sampleLib [] = Inr \<lparr>Scheme = [], Host = []\<rparr>
   \<and> extractDomain sampleLib [] = Inr ''https://''
   \<and> url_Parse sampleLib ''example.com/path'' = Inr \<lparr>Scheme = [], Host = []\<rparr>
   \<and> extractDomain sampleLib ''example.com/path'' = Inr ''https://''
   \<and> extractDomain sampleLib ''http://example.org:8080/feed'' = Inr ''http://example.org''
   \<and> fetchRSS_feed sampleLib sampleEnv ''https://nolink.example/atom.xml'' (emptyWorld, NilSlice)
       = Inr (emptyWorld,
              Slice [\<lparr>DomainName = ''https://'', Name = ''No link'', Title = ''Post'',
                      Link = ''https://blog.example.com/p'', Date = ''January 5, 2024''\<rparr>])"
proof -
  have a: "url_Parse sampleLib [] = Inr \<lparr>Scheme = [], Host = []\<rparr>"
    "url_Parse sampleLib ''example.com/path'' = Inr \<lparr>Scheme = [], Host = []\<rparr>"
    "url_Parse sampleLib ''http://example.org:8080/feed'' = Inr \<lparr>Scheme = ''http'', Host = ''example.org:8080''\<rparr>"
    by (simp_all add: sample_run)
  have h: "Hostname \<lparr>Scheme = ''http'', Host = ''example.org:8080''\<rparr> = ''example.org''"
    by (simp add: sample_run)
  have 1: "extractDomain sampleLib [] = Inr ''https://''"
    using extractDomain_accepts_what_url_Parse_accepts [of sampleLib "[]"] a(1) by blast
  have 2: "extractDomain sampleLib ''example.com/path'' = Inr ''https://''"
    using extractDomain_accepts_what_url_Parse_accepts [of sampleLib "''example.com/path''"] a(2) by blast
  have 3: "extractDomain sampleLib ''http://example.org:8080/feed'' = Inr ''http://example.org''"
    using extractDomain_accepts_what_url_Parse_accepts [of sampleLib "''http://example.org:8080/feed''"] a(3) h
    by simp
  have 4: "fetchRSS_feed sampleLib sampleEnv ''https://nolink.example/atom.xml'' (emptyWorld, NilSlice)
       = Inr (emptyWorld,
              Slice [\<lparr>DomainName = ''https://'', Name = ''No link'', Title = ''Post'',
                      Link = ''https://blog.example.com/p'', Date = ''January 5, 2024''\<rparr>])"
    by (simp add: fetchRSS_feed_def sample_fetch [OF sample_at(5)])
       (simp add: sample_run)
  show ?thesis using a 1 2 3 4 by blast
qed

section \<open>The contract of \<open>sort.Slice\<close>\<close>

text \<open>
  What the documentation of \<open>sort.Slice\<close> promises, for a comparison that orders the
  elements by an integer key: the result is a permutation of the slice, sorted by the
  key. Nothing is promised on the order of elements with equal keys.
\<close>

definition sorts :: "'a sorter \<Rightarrow> bool" where
  "sorts srt \<longleftrightarrow>
     (\<forall>(key :: 'a \<Rightarrow> int) xs.
        mset (srt (\<lambda>a b. key a < key b) xs) = mset xs
        \<and> sorted_wrt (\<lambda>a b. key a \<le> key b) (srt (\<lambda>a b. key a < key b) xs))"

text \<open>
  What \<open>sort.Slice\<close> runs on a slice of at most twelve elements is
  \<open>insertionSort_func\<close> alone; as a sorter of slices of any length it keeps the
  contract.
\<close>

definition smallSort :: "'a sorter" where
  "smallSort lt xs = insertionSort_func lt xs 0 (length xs)"

fun ins :: "('a \<Rightarrow> int) \<Rightarrow> 'a \<Rightarrow> 'a list \<Rightarrow> 'a list" where
  "ins key x [] = [x]"
| "ins key x (p # ps) = (if key x < key p then p # ins key x ps else x # p # ps)"

text \<open>
  The inner loop of the insertion sort moves the element at \<open>j\<close> down the sorted
  prefix: \<open>ins\<close> on the reversed prefix.
\<close>

lemma swap_adjacent:
  "length pre = j \<Longrightarrow> swap (pre @ p # x # suf) (Suc j) j = pre @ x # p # suf"
  by (simp add: swap_def nth_append list_update_append)

lemma inner_ins:
  "length pre = j \<Longrightarrow>
     insertionSort_inner (\<lambda>a b. key a < key b) 0 j (pre @ x # suf) = rev (ins key x (rev pre)) @ suf"
proof (induction j arbitrary: pre suf)
  case 0
  then show ?case by simp
next
  case (Suc j)
  then obtain pre' p where pre: "pre = pre' @ [p]" "length pre' = j"
    by (metis length_Suc_conv_rev)
  have nth1: "(pre @ x # suf) ! Suc j = x" using Suc.prems by (simp add: nth_append)
  have nth0: "(pre @ x # suf) ! j = p" using pre by (simp add: nth_append)
  show ?case
  proof (cases "key x < key p")
    case True
    have sw: "swap (pre @ x # suf) (Suc j) j = pre' @ x # p # suf"
      using swap_adjacent [OF pre(2), of p x suf] pre by simp
    have "insertionSort_inner (\<lambda>a b. key a < key b) 0 (Suc j) (pre @ x # suf)
        = insertionSort_inner (\<lambda>a b. key a < key b) 0 j (pre' @ x # p # suf)"
      using True nth1 nth0 sw by simp
    also have "\<dots> = rev (ins key x (rev pre')) @ p # suf"
      using Suc.IH [OF pre(2)] by simp
    finally show ?thesis using True pre by simp
  next
    case False
    then show ?thesis using nth1 nth0 pre by simp
  qed
qed

lemma mset_ins: "mset (ins key x ps) = add_mset x (mset ps)"
  by (induction ps) auto

lemma set_ins: "set (ins key x ps) = insert x (set ps)"
  by (induction ps) auto

lemma sorted_ins:
  "sorted_wrt (\<lambda>a b. key b \<le> key a) ps \<Longrightarrow> sorted_wrt (\<lambda>a b. key b \<le> key a) (ins key x ps)"
  by (induction ps) (auto simp: set_ins)

lemma insertionSort_prefix:
  fixes key :: "'a \<Rightarrow> int"
  shows "b \<le> length xs \<Longrightarrow>
     \<exists>ys. fold (\<lambda>i ys. insertionSort_inner (\<lambda>a b. key a < key b) 0 i ys) [Suc 0..<b] xs = ys @ drop b xs
        \<and> length ys = b \<and> mset ys = mset (take b xs) \<and> sorted_wrt (\<lambda>a b. key a \<le> key b) ys"
proof (induction b)
  case 0
  then show ?case by simp
next
  case (Suc b)
  show ?case
  proof (cases "b = 0")
    case True
    then have "take (Suc b) xs = [xs ! 0]" using Suc.prems by (cases xs) auto
    then show ?thesis using True Suc.prems
      by (intro exI [of _ "[xs ! 0]"]) (cases xs, auto)
  next
    case False
    then have upt: "[Suc 0..<Suc b] = [Suc 0..<b] @ [b]" by simp
    from Suc obtain ys where ys:
      "fold (\<lambda>i ys. insertionSort_inner (\<lambda>a b. key a < key b) 0 i ys) [Suc 0..<b] xs = ys @ drop b xs"
      "length ys = b" "mset ys = mset (take b xs)" "sorted_wrt (\<lambda>a b. key a \<le> key b) ys"
      by auto
    have d: "drop b xs = xs ! b # drop (Suc b) xs" using Suc.prems by (simp add: Cons_nth_drop_Suc)
    let ?zs = "rev (ins key (xs ! b) (rev ys))"
    have step: "fold (\<lambda>i ys. insertionSort_inner (\<lambda>a b. key a < key b) 0 i ys) [Suc 0..<Suc b] xs
        = ?zs @ drop (Suc b) xs"
      unfolding upt fold_append using ys(1,2) d inner_ins [of ys b key "xs ! b" "drop (Suc b) xs"] by simp
    have len: "length ?zs = Suc b" using ys(2) mset_ins [of key "xs ! b" "rev ys"]
      by (metis length_rev size_mset size_add_mset)
    have ms: "mset ?zs = mset (take (Suc b) xs)"
      using ys(3) Suc.prems by (simp add: mset_ins take_Suc_conv_app_nth)
    have "sorted_wrt (\<lambda>a b. key b \<le> key a) (rev ys)"
      using ys(4) by (simp add: sorted_wrt_rev)
    then have "sorted_wrt (\<lambda>a b. key b \<le> key a) (ins key (xs ! b) (rev ys))" by (rule sorted_ins)
    then have so: "sorted_wrt (\<lambda>a b. key a \<le> key b) ?zs" by (simp add: sorted_wrt_rev)
    show ?thesis using step len ms so by blast
  qed
qed

lemma smallSort_sorts: "sorts smallSort"
  unfolding sorts_def smallSort_def insertionSort_func_def
proof (intro allI)
  fix key :: "'a \<Rightarrow> int" and xs
  from insertionSort_prefix [of "length xs" xs key]
  show "mset (fold (insertionSort_inner (\<lambda>a b. key a < key b) 0) [Suc 0..<length xs] xs) = mset xs \<and>
       sorted_wrt (\<lambda>a b. key a \<le> key b)
        (fold (insertionSort_inner (\<lambda>a b. key a < key b) 0) [Suc 0..<length xs] xs)"
    by auto
qed

section \<open>Claims about the order of the aggregate\<close>

lemma newer_key: "newer l = (\<lambda>a b. - instant (dateOf l (Date a)) < - instant (dateOf l (Date b)))"
  by (auto simp: newer_def After_def fun_eq_iff)

lemma cos_newer_key:
  "cos_newer l = (\<lambda>a b. - instant (dateOf l (cos_Date a)) < - instant (dateOf l (cos_Date b)))"
  by (auto simp: cos_newer_def After_def fun_eq_iff)

lemma sort_Slice_sorted:
  assumes "sorts srt"
  shows "mset (elems (sort_Slice srt (\<lambda>a b. key a < key b) s)) = mset (elems s)
     \<and> sorted_wrt (\<lambda>a b. key a \<le> (key b :: int)) (elems (sort_Slice srt (\<lambda>a b. key a < key b) s))"
  using assms by (cases s) (auto simp: sorts_def)

text \<open>
  Claim C1, as amended. For every sorting algorithm that keeps the contract of
  \<open>sort.Slice\<close>, the aggregate \<open>fetchRSS\<close> returns is a permutation of the articles
  collected from the feeds, in descending order of the instant that re-parsing the
  field \<open>Date\<close> with the layout \<open>January 2, 2006\<close> gives; a \<open>Date\<close> that does not
  re-parse counts as the zero instant and fails nothing. Both variants. The order of
  articles with equal instants is left open.
\<close>

theorem fetchRSS_sorted_by_date:
  assumes "sorts srt" and "sorts srt'"
  shows "(\<forall>out err w1. fetchRSS l e srt feeds w = Inr ((out, err), w1) \<longrightarrow>
            (\<exists>articles. fetchRSS_loop l e feeds (w, NilSlice) = Inr (w1, articles)
               \<and> mset (elems out) = mset (elems articles))
            \<and> sorted_wrt (\<lambda>a b. instant (dateOf l (Date b)) \<le> instant (dateOf l (Date a))) (elems out))
     \<and> mset (elems (fst (fst (cos_fetchRSS l e' srt' feeds w))))
         = mset (elems (snd (cos_fetchRSS_loop l e' feeds (w, NilSlice))))
     \<and> sorted_wrt (\<lambda>a b. instant (dateOf l (cos_Date b)) \<le> instant (dateOf l (cos_Date a)))
         (elems (fst (fst (cos_fetchRSS l e' srt' feeds w))))
     \<and> (\<forall>d. isl (time_Parse l displayLayout d) \<longrightarrow> dateOf l d = zeroTime)"
proof (intro conjI allI impI)
  fix out err w1
  assume r: "fetchRSS l e srt feeds w = Inr ((out, err), w1)"
  then obtain articles where a: "fetchRSS_loop l e feeds (w, NilSlice) = Inr (w1, articles)"
    "out = sort_Slice srt (newer l) articles"
    by (cases "fetchRSS_loop l e feeds (w, NilSlice)") (auto simp: fetchRSS_def andThen_def)
  note s = sort_Slice_sorted [OF assms(1), of "\<lambda>a. - instant (dateOf l (Date a))" articles]
  show "\<exists>articles. fetchRSS_loop l e feeds (w, NilSlice) = Inr (w1, articles)
               \<and> mset (elems out) = mset (elems articles)"
    using a s by (auto simp: newer_key)
  show "sorted_wrt (\<lambda>a b. instant (dateOf l (Date b)) \<le> instant (dateOf l (Date a))) (elems out)"
    using a s by (simp add: newer_key)
next
  obtain w1 articles where a: "cos_fetchRSS_loop l e' feeds (w, NilSlice) = (w1, articles)"
    by (cases "cos_fetchRSS_loop l e' feeds (w, NilSlice)")
  note s = sort_Slice_sorted [OF assms(2), of "\<lambda>a. - instant (dateOf l (cos_Date a))" articles]
  show "mset (elems (fst (fst (cos_fetchRSS l e' srt' feeds w))))
         = mset (elems (snd (cos_fetchRSS_loop l e' feeds (w, NilSlice))))"
    using a s by (simp add: cos_fetchRSS_def cos_newer_key)
  show "sorted_wrt (\<lambda>a b. instant (dateOf l (cos_Date b)) \<le> instant (dateOf l (cos_Date a)))
         (elems (fst (fst (cos_fetchRSS l e' srt' feeds w))))"
    using a s by (simp add: cos_fetchRSS_def cos_newer_key)
next
  fix d assume "isl (time_Parse l displayLayout d)"
  then show "dateOf l d = zeroTime"
    by (cases "time_Parse l displayLayout d") (simp_all add: dateOf_def)
qed

section \<open>Thirteen feeds\<close>

text \<open>
  The articles of the thirteen blogs of the sample, and the steps of \<open>pdqsort_func\<close>
  on them: the pivot is the element at index 6, the slice is not found sorted, the
  partition swaps the pivot to the front and the last element (the only newer one) to
  index 1, and the two remaining ranges are short enough for the insertion sort, which
  changes nothing.
\<close>

definition blogArticle :: "char \<Rightarrow> Article" where
  "blogArticle c =
     \<lparr>DomainName = ''https://blog.example.com'', Name = ''Blog '' @ [c], Title = ''Post'',
      Link = ''https://blog.example.com/p'',
      Date = (if c = CHR ''m'' then ''July 26, 2024'' else ''July 1, 2024'')\<rparr>"

lemma newer_blog:
  "newer sampleLib (blogArticle c) (blogArticle d) = (c = CHR ''m'' \<and> d \<noteq> CHR ''m'')"
  by (simp add: newer_def blogArticle_def dateOf_def After_def sample_eval)

definition unsorted :: "Article list" where
  "unsorted = map blogArticle ''abcdefghijklm''"

definition partitioned :: "Article list" where
  "partitioned = map blogArticle ''mgcdefahijklb''"

lemma pivot: "choosePivot_func (newer sampleLib) unsorted 0 13 = (6, increasingHint)"
  by (simp add: choosePivot_func_def median_func_def order2_func_def unsorted_def newer_blog Let_def)

lemma partial: "partialInsertionSort_func (newer sampleLib) unsorted 0 13 = (unsorted, False)"
  by (simp add: partialInsertionSort_func_def numeral_eq_Suc skipSorted.simps unsorted_def newer_blog Let_def)


lemma part: "partition_func (newer sampleLib) unsorted 0 13 6 = (partitioned, 1, False)"
  by (simp add: partition_func_def swap_def scanUp.simps scanDown.simps partition_loop.simps
      unsorted_def partitioned_def newer_blog Let_def numeral_eq_Suc)

lemma left: "insertionSort_func (newer sampleLib) partitioned 0 (Suc 0) = partitioned"
  by (simp add: insertionSort_func_def)

lemma right: "insertionSort_func (newer sampleLib) partitioned (Suc (Suc 0)) 13 = partitioned"
  by (simp add: insertionSort_func_def swap_def partitioned_def newer_blog numeral_eq_Suc)


declare pdqsort_func.simps [simp del]

lemma pdqsort_small:
  "0 < fuel \<Longrightarrow> b - a \<le> 12 \<Longrightarrow>
     pdqsort_func fuel lt xs a b limit wasBalanced wasPartitioned = Some (insertionSort_func lt xs a b)"
  by (cases fuel) (simp_all add: pdqsort_func.simps)

lemma len: "length unsorted = 13" by (simp add: unsorted_def)

lemma bl: "bits_Len 13 = 4" by (simp add: bits_Len.simps)

lemma sorted13: "Slice_pdqsort (newer sampleLib) unsorted = Some partitioned"
  unfolding Slice_pdqsort_def len bl
  by (subst pdqsort_func.simps(2)) (simp add: pivot partial part pdqsort_small left right)

lemma go13: "goSort (newer sampleLib) unsorted = partitioned"
  by (simp add: goSort_def sorted13)


lemma blogs_at: "\<forall>c \<in> set blogs. map_of sample_feeds (blogURL c) = Some (blog c)"
  by (simp add: blogs_def sample_feeds_def blogURL_def)

lemma fetch_blog:
  assumes "c \<in> set blogs"
  shows "fetchRSS_feed sampleLib sampleEnv (blogURL c) (emptyWorld, articles)
     = Inr (emptyWorld, append_slice articles (blogArticle c))"
proof -
  have at: "map_of sample_feeds (blogURL c) = Some (blog c)" using assms blogs_at by blast
  show ?thesis
  proof (cases "c = CHR ''m''")
    case True
    show ?thesis
      by (simp add: fetchRSS_feed_def sample_fetch [OF at])
         (simp add: True sample_run blogArticle_def)
  next
    case False
    show ?thesis
      by (simp add: fetchRSS_feed_def sample_fetch [OF at])
         (simp add: False sample_run blogArticle_def)
  qed
qed

lemma fetch_blogs:
  "fetchRSS_loop sampleLib sampleEnv (map blogURL blogs) (emptyWorld, NilSlice)
     = Inr (emptyWorld, Slice unsorted)"
proof -
  have step: "set cs \<subseteq> set blogs \<Longrightarrow>
      fetchRSS_loop sampleLib sampleEnv (map blogURL cs) (emptyWorld, articles)
        = Inr (emptyWorld, fold (\<lambda>c s. append_slice s (blogArticle c)) cs articles)" for cs articles
    by (induction cs arbitrary: articles) (simp_all add: fetch_blog andThen_def)
  have "fold (\<lambda>c s. append_slice s (blogArticle c)) blogs NilSlice = Slice unsorted"
    by (simp add: blogs_def unsorted_def)
  then show ?thesis using step [of blogs NilSlice] by simp
qed

definition nolinkArticle :: Article where
  "nolinkArticle = \<lparr>DomainName = ''https://'', Name = ''No link'', Title = ''Post'',
      Link = ''https://blog.example.com/p'', Date = ''January 5, 2024''\<rparr>"

lemma fetch_nolink:
  "fetchRSS_feed sampleLib sampleEnv ''https://nolink.example/atom.xml'' (emptyWorld, articles)
     = Inr (emptyWorld, append_slice articles nolinkArticle)"
  by (simp add: fetchRSS_feed_def sample_fetch [OF sample_at(5)])
     (simp add: sample_run nolinkArticle_def)

definition threeFeeds :: "string list" where
  "threeFeeds = [blogURL CHR ''a'', blogURL CHR ''m'', ''https://nolink.example/atom.xml'']"

text \<open>
  In the sample, with the insertion sort for \<open>sort.Slice\<close>: three feeds dated July 1,
  July 26 and January 5, 2024 come out in the order July 26, July 1, January 5.
\<close>

theorem fetchRSS_sorted_by_date_witness:
  "sorts (smallSort :: Article sorter)
   \<and> fetchRSS sampleLib sampleEnv smallSort threeFeeds emptyWorld
       = Inr ((Slice [blogArticle CHR ''m'', blogArticle CHR ''a'', nolinkArticle], None), emptyWorld)
   \<and> sorted_wrt (\<lambda>a b. instant (dateOf sampleLib (Date b)) \<le> instant (dateOf sampleLib (Date a)))
        [blogArticle CHR ''m'', blogArticle CHR ''a'', nolinkArticle]
   \<and> sorted_wrt (\<lambda>a b. instant (dateOf sampleLib (cos_Date b)) \<le> instant (dateOf sampleLib (cos_Date a)))
        (elems (fst (fst (cos_fetchRSS sampleLib sampleEnv smallSort threeFeeds emptyWorld))))
   \<and> isl (time_Parse sampleLib displayLayout ''soon'')
   \<and> dateOf sampleLib ''soon'' = zeroTime"
proof -
  have loop: "fetchRSS_loop sampleLib sampleEnv threeFeeds (emptyWorld, NilSlice)
      = Inr (emptyWorld, Slice [blogArticle CHR ''a'', blogArticle CHR ''m'', nolinkArticle])"
    by (simp add: threeFeeds_def andThen_def fetch_blog fetch_nolink blogs_def)
  have n: "newer sampleLib (blogArticle CHR ''m'') (blogArticle CHR ''a'')"
    "\<not> newer sampleLib nolinkArticle (blogArticle CHR ''a'')"
    by (simp_all add: newer_def blogArticle_def nolinkArticle_def dateOf_def After_def sample_eval)
  have srt: "smallSort (newer sampleLib) [blogArticle CHR ''a'', blogArticle CHR ''m'', nolinkArticle]
      = [blogArticle CHR ''m'', blogArticle CHR ''a'', nolinkArticle]"
    by (simp add: smallSort_def insertionSort_func_def swap_def numeral_eq_Suc n)
  have run: "fetchRSS sampleLib sampleEnv smallSort threeFeeds emptyWorld
       = Inr ((Slice [blogArticle CHR ''m'', blogArticle CHR ''a'', nolinkArticle], None), emptyWorld)"
    by (simp add: fetchRSS_def loop andThen_def srt)
  have soon: "isl (time_Parse sampleLib displayLayout ''soon'')"
    by (simp add: sample_eval)
  note t = fetchRSS_sorted_by_date [OF smallSort_sorts smallSort_sorts,
      of sampleLib sampleEnv threeFeeds emptyWorld sampleEnv]
  have a: "sorted_wrt (\<lambda>a b. instant (dateOf sampleLib (Date b)) \<le> instant (dateOf sampleLib (Date a)))
        [blogArticle CHR ''m'', blogArticle CHR ''a'', nolinkArticle]"
    using t run by (metis elems.simps(2))
  have b: "sorted_wrt (\<lambda>a b. instant (dateOf sampleLib (cos_Date b)) \<le> instant (dateOf sampleLib (cos_Date a)))
        (elems (fst (fst (cos_fetchRSS sampleLib sampleEnv smallSort threeFeeds emptyWorld))))"
    using t by blast
  have c: "dateOf sampleLib ''soon'' = zeroTime" using t soon by blast
  show ?thesis using smallSort_sorts run a b soon c by blast
qed


text \<open>
  Claim C1 as stated has the sort stable. With thirteen feeds \<open>sort.Slice\<close> no longer
  runs the insertion sort alone. The blogs \<open>a\<close> to \<open>l\<close> carry the same date, July 1,
  2024, and come in this order in the feed list; in the aggregate, \<open>g\<close> comes before
  \<open>c\<close>, \<open>a\<close> after \<open>f\<close>, and \<open>b\<close> last.
\<close>

theorem fetchRSS_stable_counterexample:
  "fetchRSS sampleLib sampleEnv goSort (map blogURL ''abcdefghijklm'') emptyWorld
     = Inr ((Slice (map blogArticle ''mgcdefahijklb''), None), emptyWorld)
   \<and> Slice_pdqsort (newer sampleLib) (map blogArticle ''abcdefghijklm'')
     = Some (map blogArticle ''mgcdefahijklb'')
   \<and> dateOf sampleLib (Date (blogArticle CHR ''a'')) = dateOf sampleLib (Date (blogArticle CHR ''g''))"
proof -
  have 1: "fetchRSS sampleLib sampleEnv goSort (map blogURL blogs) emptyWorld
     = Inr ((Slice partitioned, None), emptyWorld)"
    by (simp add: fetchRSS_def fetch_blogs andThen_def go13)
  have 3: "dateOf sampleLib (Date (blogArticle CHR ''a'')) = dateOf sampleLib (Date (blogArticle CHR ''g''))"
    by (simp add: blogArticle_def)
  show ?thesis using 1 sorted13 3 unfolding blogs_def unsorted_def partitioned_def by blast
qed

section \<open>Claims about the published artifact\<close>

lemma saveToGitHub_writes:
  assumes "fault e (calls w) = None" and "fault e (Suc (calls w)) = None"
  shows "\<exists>w'. saveToGitHub l e data w = Inr (None, w')
     \<and> files w' ''api/rss_data.json'' = Some (json_Marshal (json_Article l) data)
     \<and> (\<forall>p. p \<noteq> ''api/rss_data.json'' \<longrightarrow> files w' p = files w p)
     \<and> calls w' = Suc (Suc (calls w))"
  using assms
  by (cases "files w ''api/rss_data.json''")
     (simp_all add: saveToGitHub_def GetContents_def CreateFile_def UpdateFile_def StatusNotFound_def Let_def)

lemma saveToCOS_writes:
  assumes "fault e (calls w) = None"
  shows "fst (saveToCOS l e data w) = None
     \<and> files (snd (saveToCOS l e data w)) ''rss/rss_data.json'' = Some (json_Marshal (cos_json_Article l) data)
     \<and> (\<forall>p. p \<noteq> ''rss/rss_data.json'' \<longrightarrow> files (snd (saveToCOS l e data w)) p = files w p)
     \<and> calls (snd (saveToCOS l e data w)) = Suc (calls w)"
  using assms by (simp add: saveToCOS_def Object_Put_def Let_def)

text \<open>A slice that \<open>append\<close> built is nil or holds an element.\<close>

definition built :: "'a slice \<Rightarrow> bool" where
  "built s = (s \<noteq> Slice [])"

lemma built_append: "built (append_slice s x)"
  by (cases s) (simp_all add: built_def)

lemma fetchRSS_feed_built:
  "built articles \<Longrightarrow> fetchRSS_feed l e u (w, articles) = Inr (w', articles') \<Longrightarrow> built articles'"
  by (auto simp: fetchRSS_feed_def andThen_def built_append split: sum.splits list.splits prod.splits)

lemma fetchRSS_loop_built:
  "built articles \<Longrightarrow> fetchRSS_loop l e feeds (w, articles) = Inr (w', articles') \<Longrightarrow> built articles'"
proof (induction feeds arbitrary: w articles)
  case Nil
  then show ?case by simp
next
  case (Cons u feeds)
  from Cons.prems(2) obtain w1 a1 where s: "fetchRSS_feed l e u (w, articles) = Inr (w1, a1)"
    "fetchRSS_loop l e feeds (w1, a1) = Inr (w', articles')"
    by (cases "fetchRSS_feed l e u (w, articles)") (auto simp: andThen_def)
  show ?case using Cons.IH [OF fetchRSS_feed_built [OF Cons.prems(1) s(1)] s(2)] .
qed

lemma cos_fetchRSS_feed_built:
  "built articles \<Longrightarrow> built (snd (cos_fetchRSS_feed l e u (w, articles)))"
  by (auto simp: cos_fetchRSS_feed_def built_append split: sum.splits list.splits prod.splits)

lemma cos_fetchRSS_loop_built:
  "built articles \<Longrightarrow> built (snd (cos_fetchRSS_loop l e feeds (w, articles)))"
proof (induction feeds arbitrary: w articles)
  case Nil
  then show ?case by simp
next
  case (Cons u feeds)
  obtain w1 a1 where s: "cos_fetchRSS_feed l e u (w, articles) = (w1, a1)"
    by (cases "cos_fetchRSS_feed l e u (w, articles)")
  then have "built a1" using cos_fetchRSS_feed_built [OF Cons.prems, of l e u w] by simp
  then show ?case using Cons.IH [of a1 w1] s by simp
qed

lemma built_empty: "built s \<Longrightarrow> elems s = [] \<Longrightarrow> s = NilSlice"
  by (cases s) (simp_all add: built_def)

text \<open>
  Claim C3, as amended. The artifact is the JSON encoding of the aggregate: for a slice
  that is not nil, an array of objects with the fields in the order of the struct
  (\<open>domainName\<close> first in the Git-hosted variant, then \<open>name\<close>, \<open>title\<close>, \<open>link\<close>,
  \<open>date\<close>), the empty array for an empty slice that is not nil; for the nil slice,
  \<open>null\<close>. When no feed yields an article, \<open>fetchRSS\<close> returns the nil slice. When
  the store answers, a second \<open>publish\<close> leaves exactly the encoding of its own
  aggregate under the path: the first content is replaced, not merged.
\<close>

theorem publish_replaces_content:
  assumes "fault e (calls w) = None" and "fault e (Suc (calls w)) = None"
    and "fault e (Suc (Suc (calls w))) = None" and "fault e (Suc (Suc (Suc (calls w)))) = None"
    and "fault e' (calls w) = None" and "fault e' (Suc (calls w)) = None"
  shows "(\<exists>w1 w2. saveToGitHub l e first w = Inr (None, w1)
            \<and> files w1 ''api/rss_data.json'' = Some (json_Marshal (json_Article l) first)
            \<and> saveToGitHub l e second w1 = Inr (None, w2)
            \<and> files w2 ''api/rss_data.json'' = Some (json_Marshal (json_Article l) second))
     \<and> files (snd (saveToCOS l e' second' (snd (saveToCOS l e' first' w)))) ''rss/rss_data.json''
         = Some (json_Marshal (cos_json_Article l) second')
     \<and> json_Marshal enc (Slice (x # xs)) = ''['' @ joinWith '','' (map enc (x # xs)) @ '']''
     \<and> json_Marshal enc (Slice []) = ''[]''
     \<and> json_Marshal enc NilSlice = ''null''
     \<and> json_Article l a
         = ''{'' @ dq @ ''domainName'' @ dq @ '':'' @ json_string l (DomainName a)
           @ '','' @ dq @ ''name'' @ dq @ '':'' @ json_string l (Name a)
           @ '','' @ dq @ ''title'' @ dq @ '':'' @ json_string l (Title a)
           @ '','' @ dq @ ''link'' @ dq @ '':'' @ json_string l (Link a)
           @ '','' @ dq @ ''date'' @ dq @ '':'' @ json_string l (Date a) @ ''}''
     \<and> cos_json_Article l c
         = ''{'' @ dq @ ''name'' @ dq @ '':'' @ json_string l (cos_Name c)
           @ '','' @ dq @ ''title'' @ dq @ '':'' @ json_string l (cos_Title c)
           @ '','' @ dq @ ''link'' @ dq @ '':'' @ json_string l (cos_Link c)
           @ '','' @ dq @ ''date'' @ dq @ '':'' @ json_string l (cos_Date c) @ ''}''
     \<and> (\<forall>w1 articles. fetchRSS_loop l e feeds (w, NilSlice) = Inr (w1, articles) \<and> elems articles = []
            \<longrightarrow> fetchRSS l e srt feeds w = Inr ((NilSlice, None), w1))
     \<and> (elems (snd (cos_fetchRSS_loop l e' feeds (w, NilSlice))) = []
            \<longrightarrow> fst (fst (cos_fetchRSS l e' srt' feeds w)) = NilSlice)"
proof -
  from saveToGitHub_writes [OF assms(1,2), of l first]
  obtain w1 where w1: "saveToGitHub l e first w = Inr (None, w1)"
    "files w1 ''api/rss_data.json'' = Some (json_Marshal (json_Article l) first)"
    "calls w1 = Suc (Suc (calls w))" by blast
  have f: "fault e (calls w1) = None" "fault e (Suc (calls w1)) = None"
    using assms(3,4) w1(3) by simp_all
  from saveToGitHub_writes [OF f, of l second]
  obtain w2 where w2: "saveToGitHub l e second w1 = Inr (None, w2)"
    "files w2 ''api/rss_data.json'' = Some (json_Marshal (json_Article l) second)" by blast
  have g: "\<exists>w1 w2. saveToGitHub l e first w = Inr (None, w1)
            \<and> files w1 ''api/rss_data.json'' = Some (json_Marshal (json_Article l) first)
            \<and> saveToGitHub l e second w1 = Inr (None, w2)
            \<and> files w2 ''api/rss_data.json'' = Some (json_Marshal (json_Article l) second)"
    using w1 w2 by blast
  note c1 = saveToCOS_writes [OF assms(5), of l first']
  have "fault e' (calls (snd (saveToCOS l e' first' w))) = None" using c1 assms(6) by simp
  from saveToCOS_writes [OF this, of l second']
  have c: "files (snd (saveToCOS l e' second' (snd (saveToCOS l e' first' w)))) ''rss/rss_data.json''
         = Some (json_Marshal (cos_json_Article l) second')" by blast
  have j: "json_Marshal enc (Slice (x # xs)) = ''['' @ joinWith '','' (map enc (x # xs)) @ '']''"
    "json_Marshal enc (Slice []) = ''[]''" "json_Marshal enc NilSlice = ''null''"
    by (simp_all add: json_Marshal_def)
  have ja: "json_Article l a
         = ''{'' @ dq @ ''domainName'' @ dq @ '':'' @ json_string l (DomainName a)
           @ '','' @ dq @ ''name'' @ dq @ '':'' @ json_string l (Name a)
           @ '','' @ dq @ ''title'' @ dq @ '':'' @ json_string l (Title a)
           @ '','' @ dq @ ''link'' @ dq @ '':'' @ json_string l (Link a)
           @ '','' @ dq @ ''date'' @ dq @ '':'' @ json_string l (Date a) @ ''}''"
    by (simp add: json_Article_def jsonMember_def)
  have jc: "cos_json_Article l c
         = ''{'' @ dq @ ''name'' @ dq @ '':'' @ json_string l (cos_Name c)
           @ '','' @ dq @ ''title'' @ dq @ '':'' @ json_string l (cos_Title c)
           @ '','' @ dq @ ''link'' @ dq @ '':'' @ json_string l (cos_Link c)
           @ '','' @ dq @ ''date'' @ dq @ '':'' @ json_string l (cos_Date c) @ ''}''"
    by (simp add: cos_json_Article_def jsonMember_def)
  have n: "\<forall>w1 articles. fetchRSS_loop l e feeds (w, NilSlice) = Inr (w1, articles) \<and> elems articles = []
            \<longrightarrow> fetchRSS l e srt feeds w = Inr ((NilSlice, None), w1)"
  proof (intro allI impI)
    fix w1 articles
    assume a: "fetchRSS_loop l e feeds (w, NilSlice) = Inr (w1, articles) \<and> elems articles = []"
    then have "built articles" using fetchRSS_loop_built [of NilSlice l e feeds w w1 articles]
      by (simp add: built_def)
    then have "articles = NilSlice" using a built_empty by blast
    then show "fetchRSS l e srt feeds w = Inr ((NilSlice, None), w1)"
      using a by (simp add: fetchRSS_def andThen_def)
  qed
  have m: "elems (snd (cos_fetchRSS_loop l e' feeds (w, NilSlice))) = []
            \<longrightarrow> fst (fst (cos_fetchRSS l e' srt' feeds w)) = NilSlice"
  proof
    assume a: "elems (snd (cos_fetchRSS_loop l e' feeds (w, NilSlice))) = []"
    have "built (snd (cos_fetchRSS_loop l e' feeds (w, NilSlice)))"
      using cos_fetchRSS_loop_built [of NilSlice l e' feeds w] by (simp add: built_def)
    then have "snd (cos_fetchRSS_loop l e' feeds (w, NilSlice)) = NilSlice" using a built_empty by blast
    then show "fst (fst (cos_fetchRSS l e' srt' feeds w)) = NilSlice"
      by (cases "cos_fetchRSS_loop l e' feeds (w, NilSlice)") (simp add: cos_fetchRSS_def)
  qed
  show ?thesis using g c j ja jc n m by blast
qed


definition quoted :: "string \<Rightarrow> string" where
  "quoted s = dq @ s @ dq"

lemma sample_no_fault: "fault (sampleEnv :: 'f env) n = None"
  by (simp add: sampleEnv_def)

text \<open>
  In the sample: an aggregate of one article is published, then another; the store
  holds the second. A feed with no entry gives the nil slice.
\<close>

theorem publish_replaces_content_witness:
  "(\<exists>w1 w2. saveToGitHub sampleLib sampleEnv (Slice [blogArticle CHR ''a'']) emptyWorld = Inr (None, w1)
       \<and> saveToGitHub sampleLib sampleEnv (Slice [nolinkArticle]) w1 = Inr (None, w2)
       \<and> files w2 ''api/rss_data.json'' = Some (json_Marshal (json_Article sampleLib) (Slice [nolinkArticle])))
   \<and> json_Marshal (json_Article sampleLib) (Slice [nolinkArticle])
       = ''[{'' @ quoted ''domainName'' @ '':'' @ quoted ''https://''
         @ '','' @ quoted ''name'' @ '':'' @ quoted ''No link''
         @ '','' @ quoted ''title'' @ '':'' @ quoted ''Post''
         @ '','' @ quoted ''link'' @ '':'' @ quoted ''https://blog.example.com/p''
         @ '','' @ quoted ''date'' @ '':'' @ quoted ''January 5, 2024'' @ ''}]''
   \<and> fetchRSS_loop sampleLib sampleEnv [''https://quiet.example/atom.xml''] (emptyWorld, NilSlice)
       = Inr (emptyWorld, NilSlice)
   \<and> fetchRSS sampleLib sampleEnv smallSort [''https://quiet.example/atom.xml''] emptyWorld
       = Inr ((NilSlice, None), emptyWorld)"
proof -
  note t = publish_replaces_content [of sampleEnv emptyWorld sampleEnv sampleLib,
      OF sample_no_fault sample_no_fault sample_no_fault sample_no_fault sample_no_fault sample_no_fault]
  have 1: "\<exists>w1 w2. saveToGitHub sampleLib sampleEnv (Slice [blogArticle CHR ''a'']) emptyWorld = Inr (None, w1)
       \<and> saveToGitHub sampleLib sampleEnv (Slice [nolinkArticle]) w1 = Inr (None, w2)
       \<and> files w2 ''api/rss_data.json'' = Some (json_Marshal (json_Article sampleLib) (Slice [nolinkArticle]))"
    using t [of "Slice [blogArticle CHR ''a'']" "Slice [nolinkArticle]", THEN conjunct1] by blast
  have 2: "json_Marshal (json_Article sampleLib) (Slice [nolinkArticle])
       = ''[{'' @ quoted ''domainName'' @ '':'' @ quoted ''https://''
         @ '','' @ quoted ''name'' @ '':'' @ quoted ''No link''
         @ '','' @ quoted ''title'' @ '':'' @ quoted ''Post''
         @ '','' @ quoted ''link'' @ '':'' @ quoted ''https://blog.example.com/p''
         @ '','' @ quoted ''date'' @ '':'' @ quoted ''January 5, 2024'' @ ''}]''"
    by (simp add: json_Marshal_def json_Article_def jsonMember_def nolinkArticle_def sampleLib_def quoted_def)
  have 3: "fetchRSS_loop sampleLib sampleEnv [''https://quiet.example/atom.xml''] (emptyWorld, NilSlice)
       = Inr (emptyWorld, NilSlice)"
    by (simp add: andThen_def fetchRSS_feed_def sample_fetch [OF sample_at(4)])
       (simp add: sample_run)
  have 4: "fetchRSS sampleLib sampleEnv smallSort [''https://quiet.example/atom.xml''] emptyWorld
       = Inr ((NilSlice, None), emptyWorld)"
    using t [where feeds = "[''https://quiet.example/atom.xml'']" and srt = smallSort,
        THEN conjunct2, THEN conjunct2, THEN conjunct2, THEN conjunct2, THEN conjunct2,
        THEN conjunct2, THEN conjunct2, THEN conjunct1] 3
    by simp
  show ?thesis using 1 2 3 4 by blast
qed

lemmas cos_run = cos_fetchRSS_def cos_fetchRSS_feed_def cos_articleTime_def cos_logStage_def
  cos_logError_def Object_Get_def Object_Put_def

text \<open>
  Claim C3 as stated has the empty array published when there are zero articles. In
  the sample, a run over one feed that has no entry publishes \<open>null\<close>, in both
  variants.
\<close>

theorem publish_empty_array_counterexample:
  "fetchRSS sampleLib sampleEnv goSort [''https://quiet.example/atom.xml''] emptyWorld
     = Inr ((NilSlice, None), emptyWorld)
   \<and> saveToGitHub sampleLib sampleEnv NilSlice emptyWorld
     = Inr (None, \<lparr>files = [''api/rss_data.json'' \<mapsto> ''null''], calls = 2, ticks = 0\<rparr>)
   \<and> cos_fetchRSS sampleLib sampleEnv goSort [''https://quiet.example/atom.xml''] emptyWorld
     = ((NilSlice, None), emptyWorld)
   \<and> saveToCOS sampleLib sampleEnv NilSlice emptyWorld
     = (None, \<lparr>files = [''rss/rss_data.json'' \<mapsto> ''null''], calls = 1, ticks = 0\<rparr>)"
proof -
  have 1: "fetchRSS sampleLib sampleEnv goSort [''https://quiet.example/atom.xml''] emptyWorld
     = Inr ((NilSlice, None), emptyWorld)"
    by (simp add: fetchRSS_def andThen_def fetchRSS_feed_def sample_fetch [OF sample_at(4)])
       (simp add: sample_run)
  have 2: "saveToGitHub sampleLib sampleEnv NilSlice emptyWorld
     = Inr (None, \<lparr>files = [''api/rss_data.json'' \<mapsto> ''null''], calls = 2, ticks = 0\<rparr>)"
    by (simp add: saveToGitHub_def json_Marshal_def GetContents_def CreateFile_def StatusNotFound_def
        sampleEnv_def emptyWorld_def)
  have 3: "cos_fetchRSS sampleLib sampleEnv goSort [''https://quiet.example/atom.xml''] emptyWorld
     = ((NilSlice, None), emptyWorld)"
    by (simp add: cos_run sample_fetch [OF sample_at(4)])
       (simp add: sample_run)
  have 4: "saveToCOS sampleLib sampleEnv NilSlice emptyWorld
     = (None, \<lparr>files = [''rss/rss_data.json'' \<mapsto> ''null''], calls = 1, ticks = 0\<rparr>)"
    by (simp add: saveToCOS_def json_Marshal_def Object_Put_def sampleEnv_def emptyWorld_def)
  show ?thesis using 1 2 3 4 by blast
qed

section \<open>Claims about the timestamp of an article\<close>

text \<open>
  The Git-hosted variant resolves the timestamp in the order published, updated,
  current instant: \<open>published\<close> is parsed first (an absent field is the empty string,
  which is parsed like any other); when that fails and \<open>updated\<close> is not empty,
  \<open>updated\<close> is parsed; when no parse succeeded, one entry is logged and the clock is
  read.
\<close>

lemma articleTime_resolution:
  "articleTime l e item w =
     (case parseTime l (Published item) of
        Inr t \<Rightarrow> Inr (t, w)
      | Inl err \<Rightarrow>
          if Updated item \<noteq> [] then
            (case parseTime l (Updated item) of
               Inr t \<Rightarrow> Inr (t, w)
             | Inl err' \<Rightarrow>
                 andThen (logStage l e ''Getting article time error'' (ItemTitle item) err' w)
                   (\<lambda>w1. Inr (Now e w1)))
          else andThen (logStage l e ''Getting article time error'' (ItemTitle item) err w)
                 (\<lambda>w1. Inr (Now e w1)))"
  by (simp add: articleTime_def Let_def split: sum.splits)

text \<open>
  Claim C2 fails for the object-storage variant, which chooses the field by emptiness
  and not by the outcome of the parse (\<open>if item.Published != "" ... else if
  item.Updated != ""\<close>). When \<open>published\<close> is not empty and does not parse, \<open>updated\<close> is
  never tried, whatever it holds: an entry is logged and the clock is read. When both
  fields are empty, nothing is parsed, the error stays \<open>nil\<close>, nothing is logged and the
  timestamp is the zero \<open>time.Time{}\<close>, not the current instant. \<open>updated\<close> is tried
  only when \<open>published\<close> is empty.
\<close>

theorem cos_articleTime_chooses_field_by_emptiness:
  "(Published item \<noteq> [] \<longrightarrow> parseTime l (Published item) = Inl err \<longrightarrow>
      cos_articleTime l e item w
        = Now e (cos_logStage l e ''Getting article time error'' (ItemTitle item) err w))
   \<and> (Published item \<noteq> [] \<longrightarrow> parseTime l (Published item) = Inr t \<longrightarrow>
        cos_articleTime l e item w = (t, w))
   \<and> (Published item = [] \<longrightarrow> Updated item = [] \<longrightarrow>
        cos_articleTime l e item w = (zeroTime, w))
   \<and> (Published item = [] \<longrightarrow> Updated item \<noteq> [] \<longrightarrow> parseTime l (Updated item) = Inr t \<longrightarrow>
        cos_articleTime l e item w = (t, w))
   \<and> (Published item = [] \<longrightarrow> Updated item \<noteq> [] \<longrightarrow> parseTime l (Updated item) = Inl err \<longrightarrow>
        cos_articleTime l e item w
          = Now e (cos_logStage l e ''Getting article time error'' (ItemTitle item) err w))"
  by (simp add: cos_articleTime_def Let_def)

text \<open>
  In the sample, the entry of the feed \<open>Stale\<close> has the published field \<open>yesterday\<close>,
  which no layout parses, and the updated field \<open>2024-07-26T08:00:00Z\<close>, which
  \<open>RFC3339\<close> parses. The Git-hosted variant dates the article July 26, 2024 and logs
  nothing; the object-storage variant logs a timestamp error and dates the article
  August 15, 2024, the day of the run. The entry of the feed \<open>Undated\<close> has neither
  field: the Git-hosted variant logs one entry and dates the article August 15, 2024;
  the object-storage variant logs nothing and dates it January 1, 0001.
\<close>

definition timeErrorLine :: "string \<Rightarrow> string" where
  "timeErrorLine v =
     ''[Thu Aug 15 12:00:2024] [Getting article time error] Post: unable to parse time: '' @ v"

definition cosArticle :: "string \<Rightarrow> string \<Rightarrow> cos_Article" where
  "cosArticle name date =
     \<lparr>cos_Name = name, cos_Title = ''Post'', cos_Link = ''https://blog.example.com/p'', cos_Date = date\<rparr>"

definition gitArticle :: "string \<Rightarrow> string \<Rightarrow> Article" where
  "gitArticle name date =
     \<lparr>DomainName = ''https://blog.example.com'', Name = name, Title = ''Post'',
      Link = ''https://blog.example.com/p'', Date = date\<rparr>"

theorem cos_articleTime_chooses_field_by_emptiness_witness:
  "parseTime sampleLib ''yesterday'' = Inl ''unable to parse time: yesterday''
   \<and> parseTime sampleLib ''2024-07-26T08:00:00Z'' = Inr (Time (day 739092 + 8 * nsPerHour) 0)
   \<and> cos_articleTime sampleLib sampleEnv (post ''yesterday'' ''2024-07-26T08:00:00Z'') emptyWorld
       = (sample_Now 1,
          \<lparr>files = [''rss/error.log'' \<mapsto> timeErrorLine ''yesterday'' @ blankLine], calls = 2, ticks = 2\<rparr>)
   \<and> articleTime sampleLib sampleEnv (post ''yesterday'' ''2024-07-26T08:00:00Z'') emptyWorld
       = Inr (Time (day 739092 + 8 * nsPerHour) 0, emptyWorld)
   \<and> cos_articleTime sampleLib sampleEnv (post [] []) emptyWorld = (zeroTime, emptyWorld)
   \<and> articleTime sampleLib sampleEnv (post [] []) emptyWorld
       = Inr (sample_Now 1,
          \<lparr>files = [''api/error.log'' \<mapsto> timeErrorLine [] @ blankLine], calls = 2, ticks = 2\<rparr>)
   \<and> cos_fetchRSS_feed sampleLib sampleEnv ''https://stale.example/atom.xml'' (emptyWorld, NilSlice)
       = (\<lparr>files = [''rss/error.log'' \<mapsto> timeErrorLine ''yesterday'' @ blankLine], calls = 2, ticks = 2\<rparr>,
          Slice [cosArticle ''Stale'' ''August 15, 2024''])
   \<and> fetchRSS_feed sampleLib sampleEnv ''https://stale.example/atom.xml'' (emptyWorld, NilSlice)
       = Inr (emptyWorld, Slice [gitArticle ''Stale'' ''July 26, 2024''])
   \<and> cos_fetchRSS_feed sampleLib sampleEnv ''https://undated.example/atom.xml'' (emptyWorld, NilSlice)
       = (emptyWorld, Slice [cosArticle ''Undated'' ''January 1, 0001''])
   \<and> fetchRSS_feed sampleLib sampleEnv ''https://undated.example/atom.xml'' (emptyWorld, NilSlice)
       = Inr (\<lparr>files = [''api/error.log'' \<mapsto> timeErrorLine [] @ blankLine], calls = 2, ticks = 2\<rparr>,
              Slice [gitArticle ''Undated'' ''August 15, 2024''])"
proof -
  have p: "parseTime sampleLib ''yesterday'' = Inl ''unable to parse time: yesterday''"
    "parseTime sampleLib ''2024-07-26T08:00:00Z'' = Inr (Time (day 739092 + 8 * nsPerHour) 0)"
    by (simp_all add: sample_eval)
  have f: "Published (post ''yesterday'' ''2024-07-26T08:00:00Z'') \<noteq> []"
    "parseTime sampleLib (Published (post ''yesterday'' ''2024-07-26T08:00:00Z''))
       = Inl ''unable to parse time: yesterday''"
    "Published (post [] []) = []" "Updated (post [] []) = []"
    using p(1) by (simp_all add: post_def)
  have lg: "Now sampleEnv (cos_logStage sampleLib sampleEnv ''Getting article time error''
        (ItemTitle (post ''yesterday'' ''2024-07-26T08:00:00Z'')) ''unable to parse time: yesterday'' emptyWorld)
       = (sample_Now 1,
          \<lparr>files = [''rss/error.log'' \<mapsto> timeErrorLine ''yesterday'' @ blankLine], calls = 2, ticks = 2\<rparr>)"
    by (simp add: cos_logStage_def cos_logError_def Object_Get_def Object_Put_def logLine_def
        getBeijingTime_def Now_def In_def sampleEnv_def sampleLib_def sample_time_Format_def
        sample_Now_def logLayout_def displayLayout_def day_def nsPerDay_def nsPerHour_def
        emptyWorld_def post_def timeErrorLine_def)
  note t = cos_articleTime_chooses_field_by_emptiness
  have 1: "cos_articleTime sampleLib sampleEnv (post ''yesterday'' ''2024-07-26T08:00:00Z'') emptyWorld
       = (sample_Now 1,
          \<lparr>files = [''rss/error.log'' \<mapsto> timeErrorLine ''yesterday'' @ blankLine], calls = 2, ticks = 2\<rparr>)"
    using t [of "post ''yesterday'' ''2024-07-26T08:00:00Z''" sampleLib
        "''unable to parse time: yesterday''" sampleEnv emptyWorld,
        THEN conjunct1, rule_format, OF f(1,2)]
    by (simp only: lg)
  have 2: "cos_articleTime sampleLib sampleEnv (post [] []) emptyWorld = (zeroTime, emptyWorld)"
    using t [of "post [] []" sampleLib _ sampleEnv emptyWorld] f(3,4) by blast
  have 3: "articleTime sampleLib sampleEnv (post ''yesterday'' ''2024-07-26T08:00:00Z'') emptyWorld
       = Inr (Time (day 739092 + 8 * nsPerHour) 0, emptyWorld)"
    using p by (simp add: articleTime_resolution post_def)
  have 4: "articleTime sampleLib sampleEnv (post [] []) emptyWorld
       = Inr (sample_Now 1,
          \<lparr>files = [''api/error.log'' \<mapsto> timeErrorLine [] @ blankLine], calls = 2, ticks = 2\<rparr>)"
    by (simp add: sample_run sample_time_Format_def sample_Now_def logLayout_def
        emptyWorld_def timeErrorLine_def)
  have 5: "cos_fetchRSS_feed sampleLib sampleEnv ''https://stale.example/atom.xml'' (emptyWorld, NilSlice)
     = (\<lparr>files = [''rss/error.log'' \<mapsto> timeErrorLine ''yesterday'' @ blankLine], calls = 2, ticks = 2\<rparr>,
        Slice [cosArticle ''Stale'' ''August 15, 2024''])"
    apply (simp add: cos_fetchRSS_feed_def sample_fetch [OF sample_at(1)])
    apply (simp add: staleFeed_def 1)
    apply (simp add: formatTime_def sampleLib_def sample_time_Format_def sample_Now_def
         sample_days_def displayLayout_def logLayout_def day_def nsPerDay_def nsPerHour_def cosArticle_def post_def)
    done
  have 6: "fetchRSS_feed sampleLib sampleEnv ''https://stale.example/atom.xml'' (emptyWorld, NilSlice)
     = Inr (emptyWorld, Slice [gitArticle ''Stale'' ''July 26, 2024''])"
    by (simp add: fetchRSS_feed_def sample_fetch [OF sample_at(1)])
       (simp add: sample_run sample_time_Format_def sample_days_def sample_url_Parse_def sample_urls_def
         gitArticle_def)
  have 7: "cos_fetchRSS_feed sampleLib sampleEnv ''https://undated.example/atom.xml'' (emptyWorld, NilSlice)
     = (emptyWorld, Slice [cosArticle ''Undated'' ''January 1, 0001''])"
    apply (simp add: cos_fetchRSS_feed_def sample_fetch [OF sample_at(2)])
    apply (simp add: undatedFeed_def 2)
    apply (simp add: formatTime_def sampleLib_def sample_time_Format_def zeroTime_def
         sample_days_def displayLayout_def nsPerDay_def cosArticle_def post_def)
    done
  have 8: "fetchRSS_feed sampleLib sampleEnv ''https://undated.example/atom.xml'' (emptyWorld, NilSlice)
     = Inr (\<lparr>files = [''api/error.log'' \<mapsto> timeErrorLine [] @ blankLine], calls = 2, ticks = 2\<rparr>,
            Slice [gitArticle ''Undated'' ''August 15, 2024''])"
    by (simp add: fetchRSS_feed_def sample_fetch [OF sample_at(2)])
       (simp add: sample_run sample_time_Format_def sample_days_def sample_url_Parse_def sample_urls_def
         sample_Now_def logLayout_def emptyWorld_def gitArticle_def timeErrorLine_def)
  show ?thesis by (intro conjI) (fact p 1 2 3 4 5 6 7 8)+
qed

section \<open>Claims about the errors of a feed\<close>

text \<open>
  The Git-hosted \<open>logMessage\<close> tests \<open>err != nil && resp.StatusCode == http.StatusNotFound\<close>.
  When the request got no response, \<open>resp\<close> is nil and the test panics; with any
  other answer of the store \<open>logMessage\<close> returns.
\<close>

lemma logMessage_panics:
  "fault e (calls w) = Some NoResponse \<Longrightarrow> logMessage e message fileName w = Inl NilPointerDereference"
  by (simp add: logMessage_def GetContents_def Let_def)

lemma logMessage_returns:
  "fault e (calls w) \<noteq> Some NoResponse \<Longrightarrow> \<exists>w'. logMessage e message fileName w = Inr w'"
  by (cases "fault e (calls w)"; cases "files w (''api/'' @ fileName)")
     (auto simp: logMessage_def GetContents_def Let_def split: github_fault.splits)

lemma logStage_panics:
  "fault e (calls w) = Some NoResponse \<Longrightarrow> logStage l e stage subject err w = Inl NilPointerDereference"
  by (simp add: logStage_def logLine_def getBeijingTime_def Now_def logError_def logMessage_panics)

lemma logStage_returns:
  assumes "\<forall>n. fault e n \<noteq> Some NoResponse"
  shows "\<exists>w'. logStage l e stage subject err w = Inr w'"
  using assms logMessage_returns [of e]
  by (simp add: logStage_def logLine_def getBeijingTime_def Now_def logError_def)

lemma feedDomain_returns:
  assumes "\<forall>n. fault e n \<noteq> Some NoResponse"
  shows "\<exists>d w'. feedDomain l e feed w = Inr (d, w')"
proof (cases "extractDomain l (FeedLink feed)")
  case (Inl err)
  obtain w' where "logStage l e ''Extract domain error'' (FeedLink feed) err w = Inr w'"
    using logStage_returns [OF assms] by blast
  then show ?thesis using Inl by (simp add: feedDomain_def andThen_def)
next
  case (Inr d)
  then show ?thesis by (simp add: feedDomain_def)
qed

lemma articleTime_returns:
  assumes "\<forall>n. fault e n \<noteq> Some NoResponse"
  shows "\<exists>t w'. articleTime l e item w = Inr (t, w')"
proof -
  define r where "r = (if isl (parseTime l (Published item)) \<and> Updated item \<noteq> []
      then parseTime l (Updated item) else parseTime l (Published item))"
  show ?thesis
  proof (cases r)
    case (Inl err)
    obtain w' where "logStage l e ''Getting article time error'' (ItemTitle item) err w = Inr w'"
      using logStage_returns [OF assms] by blast
    then show ?thesis using Inl unfolding r_def
      by (cases "Now e w'") (simp add: articleTime_def andThen_def Let_def)
  next
    case (Inr t)
    then show ?thesis unfolding r_def by (simp add: articleTime_def Let_def)
  qed
qed

lemma fetchRSS_feed_returns:
  assumes "\<forall>n. fault e n \<noteq> Some NoResponse"
  shows "\<exists>st'. fetchRSS_feed l e feedURL st = Inr st'"
proof -
  obtain w articles where st: "st = (w, articles)" by (cases st)
  show ?thesis
  proof (cases "http_Get e feedURL")
    case (Inl err)
    obtain w' where "logStage l e ''Get RSS error'' feedURL err w = Inr w'"
      using logStage_returns [OF assms] by blast
    then show ?thesis using Inl by (simp add: fetchRSS_feed_def st andThen_def)
  next
    case body: (Inr bodyString)
    show ?thesis
    proof (cases "fp_ParseString l (cleanXMLContent bodyString)")
      case (Inl err)
      obtain w' where "logStage l e ''Parse RSS error'' feedURL err w = Inr w'"
        using logStage_returns [OF assms] by blast
      then show ?thesis using Inl body by (simp add: fetchRSS_feed_def st andThen_def)
    next
      case (Inr feed)
      obtain d w1 where d: "feedDomain l e feed w = Inr (d, w1)"
        using feedDomain_returns [OF assms] by blast
      show ?thesis
      proof (cases "Items feed")
        case Nil
        then show ?thesis using Inr body d by (simp add: fetchRSS_feed_def st andThen_def)
      next
        case (Cons item others)
        obtain t w2 where "articleTime l e item w1 = Inr (t, w2)"
          using articleTime_returns [OF assms] by blast
        then show ?thesis using Cons Inr body d by (simp add: fetchRSS_feed_def st andThen_def)
      qed
    qed
  qed
qed

lemma fetchRSS_loop_returns:
  assumes "\<forall>n. fault e n \<noteq> Some NoResponse"
  shows "\<exists>st'. fetchRSS_loop l e feeds st = Inr st'"
proof (induction feeds arbitrary: st)
  case Nil
  show ?case by simp
next
  case (Cons feedURL feeds)
  obtain st1 where "fetchRSS_feed l e feedURL st = Inr st1"
    using fetchRSS_feed_returns [OF assms] by blast
  then show ?case using Cons [of st1] by (simp add: andThen_def)
qed

text \<open>
  Claim C5 fails for the Git-hosted variant. Every error of a feed is reported
  through \<open>logError\<close>, and \<open>logError\<close> panics when its request to the store gets no
  response. So when a feed cannot be fetched, or its body cannot be parsed, and the
  store cannot be reached either, \<open>fetchRSS\<close> does not return: the run ends with a nil
  pointer dereference, no error value is returned and the remaining feeds are not
  processed. When every request to the store gets a response, whatever it is,
  \<open>fetchRSS\<close> returns the error \<open>nil\<close>; and the object-storage \<open>fetchRSS\<close> always
  returns the error \<open>nil\<close>.
\<close>

theorem fetchRSS_panics_when_store_unreachable:
  "(http_Get e feedURL = Inl err \<longrightarrow> fault e (calls w) = Some NoResponse \<longrightarrow>
      fetchRSS l e srt (feedURL # feeds) w = Inl NilPointerDereference)
   \<and> (http_Get e feedURL = Inr body \<longrightarrow> fp_ParseString l (cleanXMLContent body) = Inl err \<longrightarrow>
        fault e (calls w) = Some NoResponse \<longrightarrow>
        fetchRSS l e srt (feedURL # feeds) w = Inl NilPointerDereference)
   \<and> ((\<forall>n. fault e n \<noteq> Some NoResponse) \<longrightarrow>
        (\<exists>articles w'. fetchRSS l e srt feeds w = Inr ((articles, None), w')))
   \<and> snd (fst (cos_fetchRSS l e' srt' feeds w)) = None"
proof -
  have 1: "fetchRSS l e srt (feedURL # feeds) w = Inl NilPointerDereference"
    if "http_Get e feedURL = Inl err" "fault e (calls w) = Some NoResponse"
    using that by (simp add: fetchRSS_def fetchRSS_feed_def andThen_def logStage_panics)
  have 2: "fetchRSS l e srt (feedURL # feeds) w = Inl NilPointerDereference"
    if "http_Get e feedURL = Inr body" "fp_ParseString l (cleanXMLContent body) = Inl err"
      "fault e (calls w) = Some NoResponse"
    using that by (simp add: fetchRSS_def fetchRSS_feed_def andThen_def logStage_panics)
  have 3: "\<exists>articles w'. fetchRSS l e srt feeds w = Inr ((articles, None), w')"
    if a: "\<forall>n. fault e n \<noteq> Some NoResponse"
  proof -
    obtain w1 articles where "fetchRSS_loop l e feeds (w, NilSlice) = Inr (w1, articles)"
      using fetchRSS_loop_returns [OF a, of l feeds "(w, NilSlice)"] by (metis surj_pair)
    then show ?thesis by (simp add: fetchRSS_def andThen_def)
  qed
  have 4: "snd (fst (cos_fetchRSS l e' srt' feeds w)) = None"
    by (cases "cos_fetchRSS_loop l e' feeds (w, NilSlice)") (simp add: cos_fetchRSS_def)
  show ?thesis using 1 2 3 4 by blast
qed

text \<open>
  In the sample, the host of the first feed does not resolve and the second feed is
  blog \<open>m\<close>. When no request to the store gets a response, the run panics at the log
  entry of the first feed and blog \<open>m\<close> is never fetched. When the store answers, the
  entry is logged, the article of blog \<open>m\<close> is collected and the error is \<open>nil\<close>.
\<close>

definition unreachable :: "github_fault env" where
  "unreachable = sampleEnv\<lparr>fault := (\<lambda>n. Some NoResponse)\<rparr>"

definition twoFeeds :: "string list" where
  "twoFeeds = [''https://down.example/atom.xml'', blogURL CHR ''m'']"

definition getErrorLine :: string where
  "getErrorLine = ''[Thu Aug 15 12:00:2024] [Get RSS error] https://down.example/atom.xml: Get ''
     @ dq @ ''https://down.example/atom.xml'' @ dq @ '': dial tcp: no such host''"

definition downLogged :: world where
  "downLogged = \<lparr>files = [''api/error.log'' \<mapsto> getErrorLine @ blankLine], calls = 2, ticks = 1\<rparr>"

theorem fetchRSS_panics_when_store_unreachable_witness:
  "http_Get unreachable ''https://down.example/atom.xml''
     = Inl (''Get '' @ dq @ ''https://down.example/atom.xml'' @ dq @ '': dial tcp: no such host'')
   \<and> fault unreachable (calls emptyWorld) = Some NoResponse
   \<and> fetchRSS sampleLib unreachable smallSort twoFeeds emptyWorld = Inl NilPointerDereference
   \<and> (\<exists>articles w'. fetchRSS sampleLib sampleEnv smallSort twoFeeds emptyWorld = Inr ((articles, None), w'))
   \<and> fetchRSS_loop sampleLib sampleEnv twoFeeds (emptyWorld, NilSlice)
       = Inr (downLogged,
              Slice [blogArticle CHR ''m''])
   \<and> snd (fst (cos_fetchRSS sampleLib (sampleEnv\<lparr>fault := (\<lambda>n. Some Failed)\<rparr>) smallSort twoFeeds emptyWorld)) = None"
proof -
  have g: "http_Get unreachable ''https://down.example/atom.xml''
     = Inl (''Get '' @ dq @ ''https://down.example/atom.xml'' @ dq @ '': dial tcp: no such host'')"
    "fault unreachable (calls emptyWorld) = Some NoResponse"
    using sample_down [OF sample_at(8)] by (simp_all add: unreachable_def sampleEnv_def)
  have n: "\<forall>n. fault (sampleEnv :: github_fault env) n \<noteq> Some NoResponse"
    by (simp add: sampleEnv_def)
  note t = fetchRSS_panics_when_store_unreachable
    [where feedURL = "''https://down.example/atom.xml''" and w = emptyWorld and l = sampleLib
       and srt = smallSort and feeds = "[blogURL CHR ''m'']"]
  have 1: "fetchRSS sampleLib unreachable smallSort twoFeeds emptyWorld = Inl NilPointerDereference"
    unfolding twoFeeds_def using t [where e = unreachable, THEN conjunct1, rule_format, OF g] .
  have 2: "\<exists>articles w'. fetchRSS sampleLib sampleEnv smallSort twoFeeds emptyWorld = Inr ((articles, None), w')"
    using fetchRSS_panics_when_store_unreachable
      [where e = sampleEnv and l = sampleLib and srt = smallSort and feeds = twoFeeds and w = emptyWorld] n
    by blast
  have at: "map_of sample_feeds (blogURL CHR ''m'') = Some (blog CHR ''m'')"
    using blogs_at by (simp add: blogs_def)
  have d: "fetchRSS_feed sampleLib sampleEnv ''https://down.example/atom.xml'' (emptyWorld, NilSlice)
       = Inr (downLogged, NilSlice)"
    by (simp add: fetchRSS_feed_def sample_down [OF sample_at(8)])
       (simp add: sample_run getErrorLine_def downLogged_def)
  have m: "fetchRSS_feed sampleLib sampleEnv (blogURL CHR ''m'')
        (downLogged, NilSlice)
       = Inr (downLogged,
              Slice [blogArticle CHR ''m''])"
    by (simp add: fetchRSS_feed_def sample_fetch [OF at])
       (simp add: sample_run blogArticle_def downLogged_def)
  have 3: "fetchRSS_loop sampleLib sampleEnv twoFeeds (emptyWorld, NilSlice)
       = Inr (downLogged,
              Slice [blogArticle CHR ''m''])"
    by (simp add: twoFeeds_def d m andThen_def)
  have 4: "snd (fst (cos_fetchRSS sampleLib (sampleEnv\<lparr>fault := (\<lambda>n. Some Failed)\<rparr>) smallSort twoFeeds emptyWorld)) = None"
    using fetchRSS_panics_when_store_unreachable
      [where e' = "sampleEnv\<lparr>fault := (\<lambda>n. Some Failed)\<rparr>" and l = sampleLib and srt' = smallSort
         and feeds = twoFeeds and w = emptyWorld]
    by blast
  show ?thesis by (intro conjI) (fact g 1 2 3 4)+
qed

end
